(* ===== verification/Prelude.thy ===== *)
theory Prelude
  imports Complex_Main "HOL-Library.Word" "HOL-Library.Signed_Division"
    "HOL-Library.Monad_Syntax"
begin

text \<open>
  Shared vocabulary of the development. The program verified here is a pair of Python
  generators (\<open>src/scripts/generate_headers.py\<close>, \<open>src/scripts/generate_math_headers.py\<close>)
  that print C code for a fixed-point format Qm.n. The model is the meaning of the printed C
  functions, as a function of \<open>(m, n)\<close>. This theory holds the collections of rewrite rules
  the component theories fill, and the generic facts on two's complement truncation, masks and
  truncating division that all of them use.
\<close>

unbundle bit_operations_syntax

named_theorems cint_simps \<open>evaluation rules of the C integer operations\<close>
named_theorems fmt_simps \<open>facts about the storage widths chosen for a format\<close>
named_theorems c_eval \<open>definitions unfolded to evaluate C code on concrete values\<close>

subsection \<open>Truncation to a width\<close>

lemma signed_take_bit_id [simp]:
  fixes x :: int
  assumes "- (2 ^ k) \<le> x" and "x < 2 ^ k"
  shows "signed_take_bit k x = x"
  using assms by (rule signed_take_bit_int_eq_self)

lemma take_bit_id [simp]:
  fixes x :: int
  assumes "0 \<le> x" and "x < 2 ^ k"
  shows "take_bit k x = x"
  using assms by (simp add: take_bit_int_eq_self)

lemma signed_take_bit_mod:
  "signed_take_bit k (x :: int) = (x + 2 ^ k) mod 2 ^ Suc k - 2 ^ k"
  by (simp add: signed_take_bit_eq_take_bit_shift take_bit_eq_mod)

lemma signed_take_bit_add_mult:
  "signed_take_bit k ((x :: int) + c * 2 ^ Suc k) = signed_take_bit k x"
proof -
  have "(x + c * 2 ^ Suc k + 2 ^ k) mod 2 ^ Suc k = (x + 2 ^ k + c * 2 ^ Suc k) mod 2 ^ Suc k"
    by (simp add: algebra_simps)
  also have "\<dots> = (x + 2 ^ k) mod 2 ^ Suc k"
    by (rule mod_mult_self1)
  finally show ?thesis
    by (simp only: signed_take_bit_mod)
qed

lemma signed_take_bit_eq_shift:
  fixes x :: int
  assumes "- (2 ^ k) \<le> x - c * 2 ^ Suc k" and "x - c * 2 ^ Suc k < 2 ^ k"
  shows "signed_take_bit k x = x - c * 2 ^ Suc k"
proof -
  have "signed_take_bit k x = signed_take_bit k ((x - c * 2 ^ Suc k) + c * 2 ^ Suc k)"
    by simp
  also have "\<dots> = signed_take_bit k (x - c * 2 ^ Suc k)"
    by (rule signed_take_bit_add_mult)
  also have "\<dots> = x - c * 2 ^ Suc k"
    using assms by simp
  finally show ?thesis .
qed

lemma signed_take_bit_cong_mod:
  fixes x y :: int
  assumes "x mod 2 ^ Suc k = y mod 2 ^ Suc k"
  shows "signed_take_bit k x = signed_take_bit k y"
proof -
  have "(x + 2 ^ k) mod 2 ^ Suc k = (y + 2 ^ k) mod 2 ^ Suc k"
    using assms by (metis mod_add_left_eq)
  then show ?thesis
    by (simp only: signed_take_bit_mod)
qed

subsection \<open>Masks\<close>

lemma and_mask_int: "(x :: int) AND (2 ^ k - 1) = x mod 2 ^ k"
  by (simp flip: mask_eq_exp_minus_1 take_bit_eq_mask add: take_bit_eq_mod)

lemma and_not_mask_int: "(x :: int) AND NOT (2 ^ k - 1) = x - x mod 2 ^ k"
proof -
  have "x - take_bit k x = x AND NOT (take_bit k x)"
    by (rule disjunctive_diff_eq_and_not) (simp add: bit_eq_iff bit_simps)
  also have "\<dots> = x AND NOT (mask k)"
    by (rule bit_eqI) (auto simp: bit_simps)
  finally show ?thesis
    by (simp add: mask_eq_exp_minus_1 take_bit_eq_mod)
qed

lemma and_not_mask_floor: "(x :: int) AND NOT (2 ^ k - 1) = 2 ^ k * (x div 2 ^ k)"
  by (simp add: and_not_mask_int minus_mod_eq_mult_div)

subsection \<open>Truncating division\<close>

lemma sdiv_nonneg_eq_div:
  "0 \<le> (a :: int) \<Longrightarrow> 0 \<le> b \<Longrightarrow> a sdiv b = a div b"
  by (simp add: signed_divide_int_def sgn_if)

lemma sdiv_abs_le: "\<bar>(a :: int) sdiv b\<bar> \<le> \<bar>a\<bar>"
  using sdiv_int_range [of a b] by auto

lemma mod_pow_split: "(x::int) - x mod 2 ^ n = 2 ^ n * (x div 2 ^ n)"
  by (simp add: minus_mod_eq_mult_div)

end
