(* ===== verification/CInt.thy ===== *)
theory CInt
  imports Prelude
begin

text \<open>
  The integer part of C that the generated code uses, with the choices GCC documents for
  what ISO C leaves to the implementation: two's complement types, conversion to a narrower
  type modulo \<open>2^w\<close>, \<open>>>\<close> on a negative value as an arithmetic shift, and \<open><<\<close> on a
  signed value as a shift of its bit pattern. What ISO C and GCC both leave undefined is
  \<open>None\<close>: signed overflow of \<open>+ - * /\<close> and unary minus, division by zero, a shift count
  that is negative or not below the width, and a \<open>double\<close> whose integral part does not
  fit the target type. A typed value \<open>(t, v)\<close> is an integer \<open>v\<close> of C type \<open>t\<close>.
  The platform is LP64: \<open>int\<close> has 32 bits, \<open>long\<close> and \<open>long long\<close> 64.
\<close>

datatype cty = SInt nat | UInt nat

type_synonym cval = "cty \<times> int"

abbreviation c_int :: cty where "c_int \<equiv> SInt 32"
abbreviation c_long :: cty where "c_long \<equiv> SInt 64"

fun cwidth :: "cty \<Rightarrow> nat" where
  "cwidth (SInt w) = w"
| "cwidth (UInt w) = w"

fun signed_ty :: "cty \<Rightarrow> bool" where
  "signed_ty (SInt w) = True"
| "signed_ty (UInt w) = False"

fun cmin :: "cty \<Rightarrow> int" where
  "cmin (SInt w) = - (2 ^ (w - 1))"
| "cmin (UInt w) = 0"

fun cmax :: "cty \<Rightarrow> int" where
  "cmax (SInt w) = 2 ^ (w - 1) - 1"
| "cmax (UInt w) = 2 ^ w - 1"

definition in_range :: "cty \<Rightarrow> int \<Rightarrow> bool" where
  "in_range t x \<longleftrightarrow> cmin t \<le> x \<and> x \<le> cmax t"

text \<open>Conversion of an integer to type \<open>t\<close> (ISO C, 6.3.1.3; modulo \<open>2^w\<close> in GCC).\<close>

fun conv :: "cty \<Rightarrow> int \<Rightarrow> int" where
  "conv (SInt w) x = signed_take_bit (w - 1) x"
| "conv (UInt w) x = take_bit w x"

declare conv.simps [simp del, c_eval]

text \<open>Integer promotions (ISO C, 6.3.1.1) and usual arithmetic conversions (6.3.1.8).\<close>

fun promote :: "cty \<Rightarrow> cty" where
  "promote (SInt w) = (if w < 32 then c_int else SInt w)"
| "promote (UInt w) = (if w < 32 then c_int else UInt w)"

declare promote.simps [simp del, c_eval]

fun usual :: "cty \<Rightarrow> cty \<Rightarrow> cty" where
  "usual (SInt a) (SInt b) = SInt (max a b)"
| "usual (UInt a) (UInt b) = UInt (max a b)"
| "usual (SInt a) (UInt b) = (if a \<le> b then UInt b else SInt a)"
| "usual (UInt a) (SInt b) = (if b \<le> a then UInt a else SInt b)"

definition arith_ty :: "cty \<Rightarrow> cty \<Rightarrow> cty" where
  "arith_ty s t = usual (promote s) (promote t)"

subsection \<open>Operations\<close>

text \<open>A cast, and the conversion on assignment or return, never fails.\<close>

definition c_cast :: "cty \<Rightarrow> cval \<Rightarrow> cval" where
  "c_cast t a = (t, conv t (snd a))"

text \<open>
  The result of a signed operation is checked against its type; an unsigned one wraps.
\<close>

definition c_result :: "cty \<Rightarrow> int \<Rightarrow> cval option" where
  "c_result t r =
     (if signed_ty t then (if in_range t r then Some (t, r) else None) else Some (t, conv t r))"

definition c_binop :: "(int \<Rightarrow> int \<Rightarrow> int) \<Rightarrow> cval \<Rightarrow> cval \<Rightarrow> cval option" where
  "c_binop f a b =
     (let t = arith_ty (fst a) (fst b) in c_result t (f (conv t (snd a)) (conv t (snd b))))"

definition c_add :: "cval \<Rightarrow> cval \<Rightarrow> cval option" where
  "c_add = c_binop (+)"

definition c_sub :: "cval \<Rightarrow> cval \<Rightarrow> cval option" where
  "c_sub = c_binop (-)"

definition c_mul :: "cval \<Rightarrow> cval \<Rightarrow> cval option" where
  "c_mul = c_binop (*)"

text \<open>\<open>/\<close> truncates toward zero (ISO C, 6.5.5).\<close>

definition c_div :: "cval \<Rightarrow> cval \<Rightarrow> cval option" where
  "c_div a b =
     (let t = arith_ty (fst a) (fst b); x = conv t (snd a); y = conv t (snd b) in
      if y = 0 then None else c_result t (x sdiv y))"

definition c_neg :: "cval \<Rightarrow> cval option" where
  "c_neg a = (let t = promote (fst a) in c_result t (- conv t (snd a)))"

text \<open>
  Shifts (ISO C, 6.5.7): the type is the promoted left operand; the count must lie in
  \<open>[0, width)\<close>.
\<close>

definition c_shl :: "cval \<Rightarrow> cval \<Rightarrow> cval option" where
  "c_shl a k =
     (let t = promote (fst a); s = snd k in
      if s < 0 \<or> int (cwidth t) \<le> s then None
      else Some (t, conv t (push_bit (nat s) (conv t (snd a)))))"

definition c_shr :: "cval \<Rightarrow> cval \<Rightarrow> cval option" where
  "c_shr a k =
     (let t = promote (fst a); s = snd k in
      if s < 0 \<or> int (cwidth t) \<le> s then None
      else Some (t, drop_bit (nat s) (conv t (snd a))))"

definition c_and :: "cval \<Rightarrow> cval \<Rightarrow> cval" where
  "c_and a b =
     (let t = arith_ty (fst a) (fst b) in (t, conv t (snd a) AND conv t (snd b)))"

definition c_not :: "cval \<Rightarrow> cval" where
  "c_not a = (let t = promote (fst a) in (t, conv t (NOT (snd a))))"

text \<open>Relational operators compare after the usual arithmetic conversions.\<close>

definition c_less :: "cval \<Rightarrow> cval \<Rightarrow> bool" where
  "c_less a b = (let t = arith_ty (fst a) (fst b) in conv t (snd a) < conv t (snd b))"

definition c_le :: "cval \<Rightarrow> cval \<Rightarrow> bool" where
  "c_le a b = (let t = arith_ty (fst a) (fst b) in conv t (snd a) \<le> conv t (snd b))"

definition c_eq :: "cval \<Rightarrow> cval \<Rightarrow> bool" where
  "c_eq a b = (let t = arith_ty (fst a) (fst b) in conv t (snd a) = conv t (snd b))"

text \<open>
  An unsuffixed decimal constant has the first of \<open>int\<close>, \<open>long\<close> that holds it
  (ISO C, 6.4.4.1); a larger one has no type and the program is ill-formed.
\<close>

definition c_lit :: "int \<Rightarrow> cval option" where
  "c_lit k =
     (if in_range c_int k then Some (c_int, k)
      else if in_range c_long k then Some (c_long, k) else None)"

abbreviation ci :: "int \<Rightarrow> cval" where
  "ci k \<equiv> (c_int, k)"

text \<open>
  \<open>double\<close> values are their exact real values; conversion to an integer type truncates
  toward zero, and is undefined when the integral part does not fit (ISO C, 6.3.1.4).
\<close>

definition real_trunc :: "real \<Rightarrow> int" where
  "real_trunc d = (if 0 \<le> d then floor d else ceiling d)"

definition c_of_double :: "cty \<Rightarrow> real \<Rightarrow> cval option" where
  "c_of_double t d = (if in_range t (real_trunc d) then Some (t, real_trunc d) else None)"

subsection \<open>Evaluation rules\<close>

lemma in_range_SInt:
  "in_range (SInt w) x \<longleftrightarrow> - (2 ^ (w - 1)) \<le> x \<and> x < 2 ^ (w - 1)"
  by (auto simp: in_range_def)

lemma in_range_UInt:
  "in_range (UInt w) x \<longleftrightarrow> 0 \<le> x \<and> x < 2 ^ w"
  by (auto simp: in_range_def)

lemma in_range_SInt_mono:
  assumes "in_range (SInt a) x" and "a \<le> b"
  shows "in_range (SInt b) x"
proof -
  have "(2::int) ^ (a - 1) \<le> 2 ^ (b - 1)"
    using assms(2) by (simp add: power_increasing)
  with assms(1) show ?thesis
    unfolding in_range_SInt by linarith
qed

lemma in_range_max:
  assumes "in_range (SInt a) x"
  shows "in_range (SInt (max 32 (max a b))) x" and "in_range (SInt (max 32 (max b a))) x"
    and "in_range (SInt (max 32 a)) x"
  using in_range_SInt_mono [OF assms] by auto

lemma conv_SInt_id [cint_simps]:
  "in_range (SInt w) x \<Longrightarrow> conv (SInt w) x = x"
  by (simp add: in_range_SInt conv.simps)

lemma conv_UInt_id [cint_simps]:
  "in_range (UInt w) x \<Longrightarrow> conv (UInt w) x = x"
  by (simp add: in_range_UInt conv.simps)

text \<open>Widths after promotion: \<open>max 32\<close> absorbs repeated promotions.\<close>

lemma max32_simps [cint_simps]:
  "max 32 (max a (max 32 b)) = max 32 (max a b)"
  "max 32 (max (max 32 a) b) = max 32 (max a b)"
  "max 32 (max a (32::nat)) = max 32 a"
  "max 32 (max (32::nat) a) = max 32 a"
  "max 32 (max a a) = max 32 (a::nat)"
  "max 32 (max 32 a) = max 32 (a::nat)"
  by (simp_all add: max_def)

lemma in_range_max32 [cint_simps]:
  "in_range (SInt w) x \<Longrightarrow> in_range (SInt (max 32 w)) x"
  by (erule in_range_SInt_mono) (rule max.cobounded2)

lemma in_range_max32' [cint_simps]:
  "in_range (SInt w) x \<Longrightarrow> in_range (SInt (max 32 (max w w'))) x"
  "in_range (SInt w) x \<Longrightarrow> in_range (SInt (max 32 (max w' w))) x"
  by (erule in_range_SInt_mono, simp add: le_max_iff_disj)+

lemma in_range_int_nat [cint_simps]:
  "k < 2 ^ 31 \<Longrightarrow> in_range c_int (int k)"
  by (simp add: in_range_SInt)

lemma in_range_int_const [cint_simps]:
  "in_range c_int 0" "in_range c_int 1"
  by (simp_all add: in_range_SInt)

lemma conv_UInt [cint_simps]: "conv (UInt w) x = take_bit w x"
  by (simp add: conv.simps)

lemma conv_in_range:
  "0 < cwidth t \<Longrightarrow> in_range t (conv t x)"
  by (cases t) (auto simp: in_range_SInt in_range_UInt conv.simps)

lemma conv_conv_SInt [cint_simps]:
  "0 < w \<Longrightarrow> conv (SInt w) (conv (SInt w) x) = conv (SInt w) x"
  using conv_in_range [of "SInt w" x] by (simp add: conv_SInt_id)

lemma promote_SInt [cint_simps]: "promote (SInt w) = SInt (max 32 w)"
  by (simp add: promote.simps max_def)

lemma promote_UInt [cint_simps]: "promote (UInt w) = (if w < 32 then c_int else UInt w)"
  by (simp add: promote.simps)

lemma arith_ty_SInt [cint_simps]:
  "arith_ty (SInt a) (SInt b) = SInt (max 32 (max a b))"
  by (simp add: arith_ty_def promote.simps max_def)

lemma c_result_SInt [cint_simps]:
  "c_result (SInt w) r = (if in_range (SInt w) r then Some (SInt w, r) else None)"
  by (simp add: c_result_def)

lemma c_result_UInt [cint_simps]:
  "c_result (UInt w) r = Some (UInt w, take_bit w r)"
  by (simp add: c_result_def conv.simps)

lemma c_cast_simp [cint_simps]: "c_cast t (s, x) = (t, conv t x)"
  by (simp add: c_cast_def)

text \<open>Operands of signed types, each in the range of its type.\<close>

lemma c_binop_SInt [cint_simps]:
  assumes "in_range (SInt a) x" "in_range (SInt b) y"
  shows "c_binop f (SInt a, x) (SInt b, y) = c_result (SInt (max 32 (max a b))) (f x y)"
proof -
  have "conv (SInt (max 32 (max a b))) x = x" "conv (SInt (max 32 (max a b))) y = y"
    using in_range_max(1) [OF assms(1), of b] in_range_max(2) [OF assms(2), of a]
    by (blast intro: conv_SInt_id)+
  then show ?thesis
    by (simp add: c_binop_def arith_ty_SInt)
qed

lemma c_div_SInt [cint_simps]:
  assumes "in_range (SInt a) x" "in_range (SInt b) y"
  shows "c_div (SInt a, x) (SInt b, y) =
    (if y = 0 then None else c_result (SInt (max 32 (max a b))) (x sdiv y))"
proof -
  have "conv (SInt (max 32 (max a b))) x = x" "conv (SInt (max 32 (max a b))) y = y"
    using in_range_max(1) [OF assms(1), of b] in_range_max(2) [OF assms(2), of a]
    by (blast intro: conv_SInt_id)+
  then show ?thesis
    by (simp add: c_div_def arith_ty_SInt Let_def)
qed

lemma c_neg_SInt [cint_simps]:
  assumes "in_range (SInt a) x"
  shows "c_neg (SInt a, x) = c_result (SInt (max 32 a)) (- x)"
proof -
  have "conv (SInt (max 32 a)) x = x"
    using in_range_max(3) [OF assms] by (rule conv_SInt_id)
  then show ?thesis
    by (simp add: c_neg_def promote_SInt)
qed

lemma c_shl_SInt [cint_simps]:
  assumes "in_range (SInt a) x"
  shows "c_shl (SInt a, x) k =
    (if snd k < 0 \<or> int (max 32 a) \<le> snd k then None
     else Some (SInt (max 32 a), conv (SInt (max 32 a)) (x * 2 ^ nat (snd k))))"
proof -
  have "conv (SInt (max 32 a)) x = x"
    using in_range_max(3) [OF assms] by (rule conv_SInt_id)
  then show ?thesis
    by (simp add: c_shl_def promote_SInt push_bit_eq_mult Let_def)
qed

lemma c_shr_SInt [cint_simps]:
  assumes "in_range (SInt a) x"
  shows "c_shr (SInt a, x) k =
    (if snd k < 0 \<or> int (max 32 a) \<le> snd k then None
     else Some (SInt (max 32 a), x div 2 ^ nat (snd k)))"
proof -
  have "conv (SInt (max 32 a)) x = x"
    using in_range_max(3) [OF assms] by (rule conv_SInt_id)
  then show ?thesis
    by (simp add: c_shr_def promote_SInt drop_bit_eq_div Let_def)
qed

lemma c_and_SInt [cint_simps]:
  assumes "in_range (SInt a) x" "in_range (SInt b) y"
  shows "c_and (SInt a, x) (SInt b, y) = (SInt (max 32 (max a b)), x AND y)"
proof -
  have "conv (SInt (max 32 (max a b))) x = x" "conv (SInt (max 32 (max a b))) y = y"
    using in_range_max(1) [OF assms(1), of b] in_range_max(2) [OF assms(2), of a]
    by (blast intro: conv_SInt_id)+
  then show ?thesis
    by (simp add: c_and_def arith_ty_SInt)
qed

lemma c_not_SInt [cint_simps]:
  assumes "in_range (SInt a) x"
  shows "c_not (SInt a, x) = (SInt (max 32 a), NOT x)"
proof -
  have "in_range (SInt (max 32 a)) x"
    using in_range_max(3) [OF assms] .
  then have "in_range (SInt (max 32 a)) (NOT x)"
    by (simp add: in_range_SInt not_int_def)
  then have "conv (SInt (max 32 a)) (NOT x) = NOT x"
    by (rule conv_SInt_id)
  then show ?thesis
    by (simp add: c_not_def promote_SInt)
qed

lemma c_compare_SInt [cint_simps]:
  assumes "in_range (SInt a) x" "in_range (SInt b) y"
  shows "c_less (SInt a, x) (SInt b, y) \<longleftrightarrow> x < y"
    and "c_le (SInt a, x) (SInt b, y) \<longleftrightarrow> x \<le> y"
    and "c_eq (SInt a, x) (SInt b, y) \<longleftrightarrow> x = y"
proof -
  have "conv (SInt (max 32 (max a b))) x = x" "conv (SInt (max 32 (max a b))) y = y"
    using in_range_max(1) [OF assms(1), of b] in_range_max(2) [OF assms(2), of a]
    by (blast intro: conv_SInt_id)+
  then show "c_less (SInt a, x) (SInt b, y) \<longleftrightarrow> x < y"
    and "c_le (SInt a, x) (SInt b, y) \<longleftrightarrow> x \<le> y"
    and "c_eq (SInt a, x) (SInt b, y) \<longleftrightarrow> x = y"
    by (simp_all add: c_less_def c_le_def c_eq_def arith_ty_SInt)
qed

lemmas [c_eval] = in_range_def arith_ty_def c_cast_def c_result_def c_binop_def c_add_def
  c_sub_def c_mul_def c_div_def c_neg_def c_shl_def c_shr_def c_and_def c_not_def
  c_less_def c_le_def c_eq_def c_lit_def c_of_double_def real_trunc_def

lemma conv_SInt_cong:
  assumes "x mod 2 ^ w = y mod 2 ^ w" and "0 < w"
  shows "conv (SInt w) x = conv (SInt w) y"
  using assms signed_take_bit_cong_mod [of x "w - 1" y] by (simp add: conv.simps)

lemma conv_SInt_take_bit [cint_simps]:
  "0 < w \<Longrightarrow> conv (SInt w) (take_bit w x) = conv (SInt w) x"
  by (rule conv_SInt_cong) (simp_all add: take_bit_eq_mod)

lemma c_binop_UInt [cint_simps]:
  assumes "in_range (UInt w) x" "in_range (UInt w) y"
  shows "c_binop f (UInt w, x) (UInt w, y) =
    (if w < 32 then c_result c_int (f x y) else Some (UInt w, take_bit w (f x y)))"
proof (cases "w < 32")
  case True
  have "(2::int) ^ w \<le> 2 ^ 31"
    using True by (intro power_increasing) simp_all
  then have "in_range c_int x" "in_range c_int y"
    using assms by (simp_all add: in_range_UInt in_range_SInt)
  then have "conv c_int x = x" "conv c_int y = y"
    by (simp_all add: conv_SInt_id)
  with True show ?thesis
    by (simp add: c_binop_def arith_ty_def promote_UInt)
next
  case False
  then have "conv (UInt w) x = x" "conv (UInt w) y = y"
    using assms by (simp_all add: conv_UInt_id)
  with False show ?thesis
    by (simp add: c_binop_def arith_ty_def promote_UInt c_result_UInt)
qed

lemma c_lit_small:
  assumes "0 \<le> k" "k < 2 ^ 63"
  shows "\<exists>t. c_lit k = Some (t, k)"
  using assms by (auto simp: c_lit_def in_range_SInt)

lemma conv_SInt_conv_wider:
  assumes "0 < w" "w \<le> v"
  shows "conv (SInt w) (conv (SInt v) z) = conv (SInt w) z"
proof (rule conv_SInt_cong)
  have d: "(2::int) ^ w dvd 2 ^ v"
    using assms(2) by (simp add: le_imp_power_dvd)
  have "take_bit v (conv (SInt v) z) = take_bit v z"
    using assms by (simp add: conv.simps take_bit_signed_take_bit)
  then have e: "conv (SInt v) z mod 2 ^ v = z mod 2 ^ v"
    by (simp add: take_bit_eq_mod)
  have "conv (SInt v) z mod 2 ^ w = conv (SInt v) z mod 2 ^ v mod 2 ^ w"
    using d by (simp add: mod_mod_cancel)
  also have "\<dots> = z mod 2 ^ v mod 2 ^ w"
    by (simp only: e)
  also have "\<dots> = z mod 2 ^ w"
    using d by (simp add: mod_mod_cancel)
  finally show "conv (SInt v) z mod 2 ^ w = z mod 2 ^ w" .
qed (use assms in simp)

text \<open>
  A sum or difference of two values of a signed type of width \<open>w\<close>, computed after the
  promotions (in \<open>int\<close> below 32 bits, at width \<open>w\<close> otherwise) and converted back to
  width \<open>w\<close>: it wraps for 8 and 16 bits and is undefined on overflow for 32 and 64 bits.
\<close>

lemma c_addsub_narrow:
  assumes x: "in_range (SInt a) x" "in_range (SInt w) x" and y: "in_range (SInt w) y"
    and w: "w \<le> 16 \<or> 32 \<le> w" "0 < w" and a: "max 32 (max a w) = max 32 w"
    and g: "g = (+) \<or> g = (-)"
  shows "map_option (\<lambda>r. conv (SInt w) (snd r)) (c_binop g (SInt a, x) (SInt w, y)) =
    (if w < 32 \<or> in_range (SInt w) (g x y) then Some (conv (SInt w) (g x y)) else None)"
proof -
  have b: "c_binop g (SInt a, x) (SInt w, y) = c_result (SInt (max 32 w)) (g x y)"
    using c_binop_SInt [OF x(1) y, of g] unfolding a .
  show ?thesis
  proof (cases "w < 32")
    case True
    then have w16: "w \<le> 16" and m: "max 32 w = 32"
      using w by simp_all
    have "(2::int) ^ (w - 1) \<le> 2 ^ 15"
      using w16 by (intro power_increasing) simp_all
    then have "in_range c_int (g x y)"
      using x(2) y g unfolding in_range_SInt by (elim disjE; simp; linarith)
    then show ?thesis
      unfolding b m using True by (simp add: c_result_SInt)
  next
    case False
    then have m: "max 32 w = w"
      by simp
    show ?thesis
      unfolding b m using False by (simp add: c_result_SInt conv_SInt_id)
  qed
qed

lemma bind_Some_cast:
  "Option.bind X (\<lambda>r. Some (snd (c_cast t r))) = map_option (\<lambda>r. conv t (snd r)) X"
  by (cases X) (simp_all add: c_cast_def)


lemma mult_div_ge_min:
  fixes x :: int
  assumes "- (2 ^ (w - 1)) \<le> x" "n \<le> w - 1"
  shows "- (2 ^ (w - 1)) \<le> 2 ^ n * (x div 2 ^ n)"
proof -
  have e: "(2::int) ^ (w - 1) = 2 ^ n * 2 ^ (w - 1 - n)"
    using assms(2) by (simp flip: power_add)
  have "- (2 ^ (w - 1 - n)) \<le> x div 2 ^ n"
  proof -
    have d: "((2::int) ^ n * (- (2 ^ (w - 1 - n)))) div 2 ^ n = - (2 ^ (w - 1 - n))"
      by (rule nonzero_mult_div_cancel_left) simp
    have "- (2 ^ (w - 1 - n)) = (- (2 ^ (w - 1))) div (2::int) ^ n"
      unfolding e by (simp only: mult_minus_right [symmetric] d)
    also have "\<dots> \<le> x div 2 ^ n"
      using assms(1) by (rule zdiv_mono1) simp
    finally show ?thesis .
  qed
  then have "2 ^ n * (- (2 ^ (w - 1 - n))) \<le> 2 ^ n * (x div (2::int) ^ n)"
    by (rule mult_left_mono) simp
  then show ?thesis
    unfolding e by simp
qed


lemma mask_down_in_range:
  assumes "in_range (SInt w) x" "n \<le> w - 1"
  shows "in_range (SInt w) (x - x mod 2 ^ n)"
proof -
  have "x - x mod 2 ^ n = 2 ^ n * (x div 2 ^ n)"
    by (simp add: minus_mod_eq_mult_div)
  moreover have "- (2 ^ (w - 1)) \<le> 2 ^ n * (x div 2 ^ n)"
    using assms by (intro mult_div_ge_min) (simp_all add: in_range_SInt)
  moreover have "0 \<le> x mod (2::int) ^ n"
    by simp
  ultimately show ?thesis
    using assms(1) unfolding in_range_SInt by (intro conjI) linarith+
qed

text \<open>The regime where \<open>ONE = 2^n\<close> is a positive value of the storage type.\<close>


lemma pow_in_range:
  assumes "k + 2 \<le> w"
  shows "in_range (SInt w) (2 ^ k)" "in_range (SInt w) (2 ^ k - 1)" "in_range (SInt w) (- (2 ^ k))"
proof -
  have "(2::int) ^ k < 2 ^ (w - 1)"
    using assms by (intro power_strict_increasing) simp_all
  moreover have "(0::int) < 2 ^ k"
    by simp
  ultimately show "in_range (SInt w) (2 ^ k)" "in_range (SInt w) (2 ^ k - 1)"
    "in_range (SInt w) (- (2 ^ k))"
    unfolding in_range_SInt by linarith+
qed


lemma c_sub_int_lits:
  assumes "0 \<le> k" "k < 2 ^ 30"
  shows "c_sub (ci k) (ci 1) = Some (c_int, k - 1)"
proof -
  have "in_range c_int k" "in_range c_int 1" "in_range c_int (k - 1)"
    using assms by (simp_all add: in_range_SInt)
  then show ?thesis
    by (simp add: c_sub_def c_binop_SInt c_result_SInt)
qed


lemma small_shift_in_int:
  fixes x h M :: int
  assumes "- M \<le> x" "x < M" "0 \<le> h" "h \<le> M"
  shows "M \<le> 2 ^ 15 \<Longrightarrow> - (2 ^ 31) \<le> (if 0 \<le> x then x + h else x - h) \<and>
    (if 0 \<le> x then x + h else x - h) < 2 ^ 31"
  using assms by auto

lemma conv_SInt_mod_low:
  "0 < w \<Longrightarrow> n \<le> w \<Longrightarrow> conv (SInt w) z mod 2 ^ n = z mod 2 ^ n"
  by (simp add: conv.simps take_bit_signed_take_bit flip: take_bit_eq_mod)

lemma conv_SInt_half: "0 < w \<Longrightarrow> conv (SInt w) (2 ^ (w - 1)) = - (2 ^ (w - 1))"
proof -
  assume "0 < w"
  then obtain k where "w = Suc k"
    by (cases w) simp_all
  then show ?thesis
    by (simp add: conv.simps signed_take_bit_mod)
qed

lemma div_pow_in_range:
  assumes "in_range (SInt w) y"
  shows "in_range (SInt w) (y div 2 ^ i)"
proof -
  have "y div 2 ^ i \<le> max y 0" "min y (-1) \<le> y div 2 ^ i"
  proof -
    show "y div 2 ^ i \<le> max y 0"
    proof (cases "0 \<le> y")
      case True
      then show ?thesis
        using int_div_le_self [of y "2 ^ i"] by (cases "y = 0") simp_all
    next
      case False
      then show ?thesis
        by (simp add: div_neg_pos_less0 less_imp_le)
    qed
    show "min y (-1) \<le> y div 2 ^ i"
    proof (cases "0 \<le> y")
      case True
      then have "0 \<le> y div 2 ^ i"
        by (simp add: div_int_pos_iff)
      then show ?thesis
        by (simp add: min_le_iff_disj)
    next
      case False
      have "y div 1 \<le> y div 2 ^ i"
        using False by (intro zdiv_mono2_neg) simp_all
      then have "y \<le> y div 2 ^ i"
        by simp
      then show ?thesis
        by simp
    qed
  qed
  moreover have "(0::int) < 2 ^ (w - 1)"
    by simp
  ultimately show ?thesis
    using assms unfolding in_range_SInt by (intro conjI) linarith+
qed

lemma c_addsub_int16:
  assumes "in_range (SInt a) x" "in_range (SInt b) y" "a \<le> 32" "b \<le> 32"
    and "in_range (SInt 16) x" "in_range (SInt 16) y" and g: "g = (+) \<or> g = (-)"
  shows "c_binop g (SInt a, x) (SInt b, y) = Some (c_int, g x y)"
proof -
  have "in_range c_int (g x y)"
    using assms(5,6) g unfolding in_range_SInt by (elim disjE; simp; linarith)
  moreover have "max 32 (max a b) = 32"
    using assms(3,4) by simp
  ultimately show ?thesis
    using c_binop_SInt [OF assms(1,2), of g] by (simp add: c_result_SInt)
qed

lemma real_trunc_scaled:
  assumes "0 \<le> a"
  shows "real_trunc (real_of_int a / 2 ^ e * 2 ^ n) = a * 2 ^ n div 2 ^ e"
proof -
  have "real_of_int a / 2 ^ e * 2 ^ n = real_of_int (a * 2 ^ n) / real_of_int (2 ^ e)"
    by simp
  moreover have "0 \<le> real_of_int a / 2 ^ e * 2 ^ n"
    using assms by simp
  ultimately show ?thesis
    by (simp only: real_trunc_def if_True floor_divide_of_int_eq)
qed

lemma conv_0 [simp]: "conv t 0 = 0"
  by (cases t) (simp_all add: conv.simps)

end
