(* ===== verification/Format.thy ===== *)
theory Format
  imports CInt
begin

text \<open>
  The format selector. Each generator maps \<open>(m, n)\<close> to a storage type by the same chain of
  comparisons on \<open>total_bits = m + n + 1\<close>: \<open>generate_header\<close> also picks an unsigned type
  and a double-width type and gives up (prints "Skipping" and returns) above 64 bits;
  \<open>generate_math_header\<close> and \<open>generate_cordic_c_file\<close> raise \<open>ValueError\<close> there. A
  format is a record of \<open>m\<close>, \<open>n\<close> and the storage width; the core header's format
  extends it with the width of its double-width type.
\<close>

record qfmt =
  m_bits :: nat
  n_bits :: nat
  storage_bits :: nat

record core_fmt = qfmt +
  wide_bits :: nat

datatype gen_error = ValueError

definition total_bits :: "nat \<Rightarrow> nat \<Rightarrow> nat" where
  "total_bits m n = m + n + 1"

text \<open>\<open>generate_header\<close>, lines 6--38: \<open>None\<close> is the early return after "Skipping".\<close>

definition header_format :: "nat \<Rightarrow> nat \<Rightarrow> core_fmt option" where
  "header_format m n =
     (let total = total_bits m n in
      if total \<le> 8 then Some \<lparr>m_bits = m, n_bits = n, storage_bits = 8, wide_bits = 16\<rparr>
      else if total \<le> 16 then Some \<lparr>m_bits = m, n_bits = n, storage_bits = 16, wide_bits = 32\<rparr>
      else if total \<le> 32 then Some \<lparr>m_bits = m, n_bits = n, storage_bits = 32, wide_bits = 64\<rparr>
      else if total \<le> 64 then Some \<lparr>m_bits = m, n_bits = n, storage_bits = 64, wide_bits = 128\<rparr>
      else None)"

text \<open>\<open>generate_math_header\<close>, lines 12--24.\<close>

definition math_format :: "nat \<Rightarrow> nat \<Rightarrow> gen_error + qfmt" where
  "math_format m n =
     (let total = total_bits m n in
      if total \<le> 8 then Inr \<lparr>m_bits = m, n_bits = n, storage_bits = 8\<rparr>
      else if total \<le> 16 then Inr \<lparr>m_bits = m, n_bits = n, storage_bits = 16\<rparr>
      else if total \<le> 32 then Inr \<lparr>m_bits = m, n_bits = n, storage_bits = 32\<rparr>
      else if total \<le> 64 then Inr \<lparr>m_bits = m, n_bits = n, storage_bits = 64\<rparr>
      else Inl ValueError)"

text \<open>\<open>generate_cordic_c_file\<close>, lines 138--150.\<close>

definition cordic_format :: "nat \<Rightarrow> nat \<Rightarrow> gen_error + qfmt" where
  "cordic_format m n =
     (let total = total_bits m n in
      if total \<le> 8 then Inr \<lparr>m_bits = m, n_bits = n, storage_bits = 8\<rparr>
      else if total \<le> 16 then Inr \<lparr>m_bits = m, n_bits = n, storage_bits = 16\<rparr>
      else if total \<le> 32 then Inr \<lparr>m_bits = m, n_bits = n, storage_bits = 32\<rparr>
      else if total \<le> 64 then Inr \<lparr>m_bits = m, n_bits = n, storage_bits = 64\<rparr>
      else Inl ValueError)"

text \<open>The formats a generator accepts.\<close>

definition valid_core :: "core_fmt \<Rightarrow> bool" where
  "valid_core f \<longleftrightarrow> header_format (m_bits f) (n_bits f) = Some f"

definition valid_math :: "qfmt \<Rightarrow> bool" where
  "valid_math f \<longleftrightarrow> math_format (m_bits f) (n_bits f) = Inr f"

text \<open>The C types of a format: \<open>q<m>_<n>_t\<close>, its unsigned twin, the double-width type.\<close>

abbreviation qty :: "'a qfmt_scheme \<Rightarrow> cty" where
  "qty f \<equiv> SInt (storage_bits f)"

abbreviation uty :: "'a qfmt_scheme \<Rightarrow> cty" where
  "uty f \<equiv> UInt (storage_bits f)"

abbreviation wty :: "core_fmt \<Rightarrow> cty" where
  "wty f \<equiv> SInt (wide_bits f)"

abbreviation qv :: "'a qfmt_scheme \<Rightarrow> int \<Rightarrow> cval" where
  "qv f a \<equiv> (qty f, a)"

text \<open>A value of the format: an integer in the range of its storage type.\<close>

abbreviation qval :: "'a qfmt_scheme \<Rightarrow> int \<Rightarrow> bool" where
  "qval f a \<equiv> in_range (qty f) a"

subsection \<open>Properties of the selector\<close>

lemma header_format_eq:
  "header_format m n =
     (if 64 < total_bits m n then None
      else Some \<lparr>m_bits = m, n_bits = n,
        storage_bits = (if total_bits m n \<le> 8 then 8 else if total_bits m n \<le> 16 then 16
                        else if total_bits m n \<le> 32 then 32 else 64),
        wide_bits = (if total_bits m n \<le> 8 then 16 else if total_bits m n \<le> 16 then 32
                     else if total_bits m n \<le> 32 then 64 else 128)\<rparr>)"
  by (simp add: header_format_def Let_def)

lemma header_format_Some:
  assumes "header_format m n = Some f"
  shows "m_bits f = m" and "n_bits f = n" and "total_bits m n \<le> 64"
    and "storage_bits f = (if total_bits m n \<le> 8 then 8 else if total_bits m n \<le> 16 then 16
                           else if total_bits m n \<le> 32 then 32 else 64)"
    and "wide_bits f = 2 * storage_bits f"
  using assms by (auto simp: header_format_eq split: if_splits)

lemma valid_core_header_format:
  "header_format m n = Some f \<Longrightarrow> valid_core f"
  using header_format_Some(1,2) [of m n f] by (simp add: valid_core_def)

lemma valid_core_Some:
  assumes "valid_core f"
  shows "total_bits (m_bits f) (n_bits f) \<le> 64"
    and "storage_bits f = (if total_bits (m_bits f) (n_bits f) \<le> 8 then 8
        else if total_bits (m_bits f) (n_bits f) \<le> 16 then 16
        else if total_bits (m_bits f) (n_bits f) \<le> 32 then 32 else 64)"
    and "wide_bits f = 2 * storage_bits f"
  using header_format_Some(3-5) [of "m_bits f" "n_bits f" f] assms
  by (simp_all add: valid_core_def)

lemma valid_core_widths:
  assumes "valid_core f"
  shows "storage_bits f = 8 \<and> wide_bits f = 16 \<or> storage_bits f = 16 \<and> wide_bits f = 32 \<or>
         storage_bits f = 32 \<and> wide_bits f = 64 \<or> storage_bits f = 64 \<and> wide_bits f = 128"
  using valid_core_Some(2,3) [OF assms] by auto

lemma valid_core_bits [fmt_simps]:
  assumes "valid_core f"
  shows "m_bits f + n_bits f + 1 \<le> storage_bits f" and "wide_bits f = 2 * storage_bits f"
    and "8 \<le> storage_bits f" and "storage_bits f \<le> 64"
  using valid_core_Some [OF assms] by (auto simp: total_bits_def split: if_splits)

lemma valid_core_n_less [fmt_simps]:
  "valid_core f \<Longrightarrow> n_bits f < storage_bits f"
  using valid_core_bits(1) [of f] by simp

lemma math_format_eq:
  "math_format m n =
     (if 64 < total_bits m n then Inl ValueError
      else Inr \<lparr>m_bits = m, n_bits = n,
        storage_bits = (if total_bits m n \<le> 8 then 8 else if total_bits m n \<le> 16 then 16
                        else if total_bits m n \<le> 32 then 32 else 64)\<rparr>)"
  by (simp add: math_format_def Let_def)

lemma math_format_Inr:
  assumes "math_format m n = Inr f"
  shows "m_bits f = m" and "n_bits f = n" and "total_bits m n \<le> 64"
    and "storage_bits f = (if total_bits m n \<le> 8 then 8 else if total_bits m n \<le> 16 then 16
                           else if total_bits m n \<le> 32 then 32 else 64)"
  using assms by (auto simp: math_format_eq split: if_splits)

lemma valid_math_math_format:
  "math_format m n = Inr f \<Longrightarrow> valid_math f"
  using math_format_Inr(1,2) [of m n f] by (simp add: valid_math_def)

lemma valid_math_Inr:
  assumes "valid_math f"
  shows "total_bits (m_bits f) (n_bits f) \<le> 64"
    and "storage_bits f = (if total_bits (m_bits f) (n_bits f) \<le> 8 then 8
        else if total_bits (m_bits f) (n_bits f) \<le> 16 then 16
        else if total_bits (m_bits f) (n_bits f) \<le> 32 then 32 else 64)"
  using math_format_Inr(3,4) [of "m_bits f" "n_bits f" f] assms
  by (simp_all add: valid_math_def)

lemma valid_math_widths:
  assumes "valid_math f"
  shows "storage_bits f \<in> {8, 16, 32, 64}"
  using valid_math_Inr(2) [OF assms] by auto

lemma valid_math_bits [fmt_simps]:
  assumes "valid_math f"
  shows "m_bits f + n_bits f + 1 \<le> storage_bits f" and "8 \<le> storage_bits f"
    and "storage_bits f \<le> 64"
  using valid_math_Inr [OF assms] by (auto simp: total_bits_def split: if_splits)

lemma valid_math_n_less [fmt_simps]:
  "valid_math f \<Longrightarrow> n_bits f < storage_bits f"
  using valid_math_bits(1) [of f] by simp

lemma valid_math_truncate:
  "valid_core f \<Longrightarrow> valid_math (qfmt.truncate f)"
  using valid_core_Some(1,2) [of f]
  by (simp add: valid_math_def math_format_eq qfmt.truncate_def)

lemma qval_cast:
  assumes "0 < storage_bits f"
  shows "qval f (snd (c_cast (qty f) v)) = True" and "qval f (conv (qty f) z) = True"
  using assms by (simp_all add: c_cast_def conv_in_range)

subsection \<open>Properties of the format selector\<close>

text \<open>
  C9: \<open>generate_header\<close> rejects exactly the formats wider than 64 bits; for every other
  \<open>(m, n)\<close> it keeps \<open>m\<close> and \<open>n\<close>, stores values in the smallest of 8, 16, 32, 64 bits
  that holds \<open>m + n + 1\<close> bits, and uses a double-width type twice as wide.
\<close>

theorem header_format_smallest:
  "(header_format m n = None \<longleftrightarrow> 64 < m + n + 1) \<and>
   (\<forall>f. header_format m n = Some f \<longrightarrow>
      m_bits f = m \<and> n_bits f = n \<and> storage_bits f \<in> {8, 16, 32, 64} \<and>
      m + n + 1 \<le> storage_bits f \<and>
      (\<forall>w \<in> {8, 16, 32, 64}. m + n + 1 \<le> w \<longrightarrow> storage_bits f \<le> w) \<and>
      wide_bits f = 2 * storage_bits f)"
  by (auto simp: header_format_eq total_bits_def)

theorem header_format_smallest_witness:
  "header_format 7 8 = Some \<lparr>m_bits = 7, n_bits = 8, storage_bits = 16, wide_bits = 32\<rparr> \<and>
   storage_bits \<lparr>m_bits = 7, n_bits = 8, storage_bits = 16, wide_bits = 32\<rparr> \<in> {8, 16, 32, 64} \<and>
   header_format 40 40 = None"
proof -
  have "header_format 7 8 = Some \<lparr>m_bits = 7, n_bits = 8, storage_bits = 16, wide_bits = 32\<rparr>"
    by (simp add: header_format_eq total_bits_def)
  moreover have "header_format 40 40 = None"
    using header_format_smallest [of 40 40] by simp
  ultimately show ?thesis
    using header_format_smallest [of 7 8] by simp
qed

text \<open>
  C10: the three selectors agree: the math header and the CORDIC source raise
  \<open>ValueError\<close> exactly where the core header is skipped, and otherwise use the same
  storage type as the core header.
\<close>

theorem selectors_agree:
  "math_format m n =
     (case header_format m n of None \<Rightarrow> Inl ValueError | Some f \<Rightarrow> Inr (qfmt.truncate f)) \<and>
   cordic_format m n = math_format m n"
  by (simp add: math_format_def cordic_format_def header_format_eq qfmt.truncate_def Let_def)

end
