(* ===== verification/FixCore.thy ===== *)
theory FixCore
  imports Format
begin

text \<open>
  The arithmetic core: the C functions that \<open>generate_header\<close>
  (\<open>src/scripts/generate_headers.py\<close>, lines 73--114) prints into \<open>q<m>_<n>.h\<close>.
  Each function takes and returns values of the storage type; the result is
  \<open>None\<close> where the printed C code has undefined behaviour. The macro
  \<open>Q<m>_<n>_WRAP(raw)\<close> is a cast to the storage type.
\<close>

definition q_WRAP :: "core_fmt \<Rightarrow> cval \<Rightarrow> int" where
  "q_WRAP f r = snd (c_cast (qty f) r)"

text \<open>\<open>Q_ONE\<close> is \<open>WRAP\<close> of the decimal literal \<open>1 << n\<close> that Python prints;
  \<open>Q_MAX\<close>, \<open>Q_MIN\<close> are \<open>WRAP(INT<w>_MAX)\<close>, \<open>WRAP(INT<w>_MIN)\<close>, whose type is the
  promoted storage type.\<close>

definition q_ONE :: "core_fmt \<Rightarrow> int option" where
  "q_ONE f = map_option (q_WRAP f) (c_lit (2 ^ n_bits f))"

definition q_MAX :: "core_fmt \<Rightarrow> int" where
  "q_MAX f = q_WRAP f (promote (qty f), cmax (qty f))"

definition q_MIN :: "core_fmt \<Rightarrow> int" where
  "q_MIN f = q_WRAP f (promote (qty f), cmin (qty f))"

text \<open>\<open>add\<close>, \<open>sub\<close>: operands cast to the unsigned type, result cast back.\<close>

definition q_add :: "core_fmt \<Rightarrow> int \<Rightarrow> int \<Rightarrow> int option" where
  "q_add f a b = do {
     s \<leftarrow> c_add (c_cast (uty f) (qv f a)) (c_cast (uty f) (qv f b));
     Some (q_WRAP f (c_cast (qty f) s))
   }"

definition q_sub :: "core_fmt \<Rightarrow> int \<Rightarrow> int \<Rightarrow> int option" where
  "q_sub f a b = do {
     s \<leftarrow> c_sub (c_cast (uty f) (qv f a)) (c_cast (uty f) (qv f b));
     Some (q_WRAP f (c_cast (qty f) s))
   }"

text \<open>
  \<open>mul\<close>: \<open>prod = (wide)a * (wide)b; return WRAP((T)((prod + (1 << (n-1))) >> n))\<close>,
  where \<open>n\<close> is substituted as a decimal literal, so \<open>1 << (n-1)\<close> is computed in \<open>int\<close>.
\<close>

definition q_mul :: "core_fmt \<Rightarrow> int \<Rightarrow> int \<Rightarrow> int option" where
  "q_mul f a b = do {
     p \<leftarrow> c_mul (c_cast (wty f) (qv f a)) (c_cast (wty f) (qv f b));
     let prod = c_cast (wty f) p;
     k \<leftarrow> c_sub (ci (int (n_bits f))) (ci 1);
     bias \<leftarrow> c_shl (ci 1) k;
     s \<leftarrow> c_add prod bias;
     r \<leftarrow> c_shr s (ci (int (n_bits f)));
     Some (q_WRAP f (c_cast (qty f) r))
   }"

text \<open>
  \<open>div\<close>: \<open>if (b == 0) return (a >= 0) ? MAX : MIN;\<close> then
  \<open>dividend = (wide)a << n; return WRAP((T)(dividend / b))\<close>.
\<close>

definition q_div :: "core_fmt \<Rightarrow> int \<Rightarrow> int \<Rightarrow> int option" where
  "q_div f a b =
     (if c_eq (qv f b) (ci 0) then Some (if c_le (ci 0) (qv f a) then q_MAX f else q_MIN f)
      else do {
        d \<leftarrow> c_shl (c_cast (wty f) (qv f a)) (ci (int (n_bits f)));
        let dividend = c_cast (wty f) d;
        r \<leftarrow> c_div dividend (qv f b);
        Some (q_WRAP f (c_cast (qty f) r))
      })"

text \<open>
  \<open>from_double\<close>: \<open>WRAP((T)(d * 2^n + (d >= 0 ? 0.5 : -0.5)))\<close>; \<open>to_double\<close>:
  \<open>(double)a / 2^n\<close>. The \<open>double\<close> arithmetic is taken exact (see the header of
  the development for the bounds under which IEEE rounding does not change the result).
\<close>

definition q_from_double :: "core_fmt \<Rightarrow> real \<Rightarrow> int option" where
  "q_from_double f d = do {
     r \<leftarrow> c_of_double (qty f) (d * 2 ^ n_bits f + (if 0 \<le> d then 1 / 2 else - 1 / 2));
     Some (q_WRAP f r)
   }"

definition q_to_double :: "core_fmt \<Rightarrow> int \<Rightarrow> real" where
  "q_to_double f a = real_of_int a / 2 ^ n_bits f"

lemmas [c_eval] = q_WRAP_def q_ONE_def q_MAX_def q_MIN_def q_add_def q_sub_def q_mul_def
  q_div_def q_from_double_def q_to_double_def

subsection \<open>Constants\<close>

lemma q_WRAP_simp [simp]: "q_WRAP f (t, x) = conv (qty f) x"
  by (simp add: q_WRAP_def c_cast_def)

lemma q_MAX_eq: "valid_core f \<Longrightarrow> q_MAX f = cmax (qty f)"
  using valid_core_bits(3) [of f] by (simp add: q_MAX_def conv_SInt_id in_range_def)

lemma q_MIN_eq: "valid_core f \<Longrightarrow> q_MIN f = cmin (qty f)"
  using valid_core_bits(3) [of f] by (simp add: q_MIN_def conv_SInt_id in_range_def)

subsection \<open>Addition and subtraction wrap around\<close>

text \<open>
  The sum or difference of the two unsigned images, taken in \<open>int\<close> for 8- and 16-bit
  storage and modulo \<open>2^w\<close> for 32 and 64 bits, has the same residue modulo \<open>2^w\<close> as the
  exact result, so the final cast yields the two's complement wrap of the exact result.
\<close>

lemma unsigned_image_sum_bound:
  assumes "valid_core f" "storage_bits f < 32"
  shows "in_range c_int (take_bit (storage_bits f) a + take_bit (storage_bits f) b)"
    and "in_range c_int (take_bit (storage_bits f) a - take_bit (storage_bits f) b)"
proof -
  define x y where "x = take_bit (storage_bits f) a" and "y = take_bit (storage_bits f) b"
  have "storage_bits f \<le> 16"
    using valid_core_widths [OF assms(1)] assms(2) by auto
  then have "(2::int) ^ storage_bits f \<le> 2 ^ 16"
    by (intro power_increasing) simp_all
  moreover have "x < 2 ^ storage_bits f" "y < 2 ^ storage_bits f" "0 \<le> x" "0 \<le> y"
    by (simp_all add: x_def y_def)
  ultimately have "0 \<le> x" "x < 65536" "0 \<le> y" "y < 65536"
    by simp_all
  then show "in_range c_int (take_bit (storage_bits f) a + take_bit (storage_bits f) b)"
    and "in_range c_int (take_bit (storage_bits f) a - take_bit (storage_bits f) b)"
    unfolding x_def [symmetric] y_def [symmetric] by (simp_all add: cint_simps in_range_SInt in_range_UInt)
qed

lemma q_unsigned_op_wrap:
  assumes f: "valid_core f" and g: "g = (+) \<or> g = (-)"
  shows "do { s \<leftarrow> c_binop g (c_cast (uty f) (qv f a)) (c_cast (uty f) (qv f b));
              Some (q_WRAP f (c_cast (qty f) s)) } = Some (conv (qty f) (g a b))"
proof -
  let ?w = "storage_bits f"
  have w: "0 < ?w"
    using valid_core_bits(3) [OF f] by simp
  have rng: "in_range (uty f) (take_bit ?w a)" "in_range (uty f) (take_bit ?w b)"
    by (simp_all add: cint_simps in_range_SInt in_range_UInt)
  have md: "g (take_bit ?w a) (take_bit ?w b) mod 2 ^ ?w = g a b mod 2 ^ ?w"
    using g by (auto simp: take_bit_eq_mod mod_add_eq mod_diff_eq)
  have cv: "conv (qty f) (g (take_bit ?w a) (take_bit ?w b)) = conv (qty f) (g a b)"
    using md w by (rule conv_SInt_cong)
  show ?thesis
  proof (cases "?w < 32")
    case True
    then have "in_range c_int (g (take_bit ?w a) (take_bit ?w b))"
      using unsigned_image_sum_bound [OF f True] g by auto
    then show ?thesis
      using True rng cv w by (simp add: c_cast_def conv_UInt c_binop_UInt c_result_SInt conv_conv_SInt)
  next
    case False
    then show ?thesis
      using rng cv w by (simp add: c_cast_def conv_UInt c_binop_UInt conv_SInt_take_bit conv_conv_SInt)
  qed
qed

lemma q_add_eq: "valid_core f \<Longrightarrow> q_add f a b = Some (conv (qty f) (a + b))"
  using q_unsigned_op_wrap [of f "(+)" a b] by (simp add: q_add_def c_add_def)

lemma q_sub_eq: "valid_core f \<Longrightarrow> q_sub f a b = Some (conv (qty f) (a - b))"
  using q_unsigned_op_wrap [of f "(-)" a b] by (simp add: q_sub_def c_sub_def)

lemma prod_abs_bound:
  fixes a b :: int
  assumes "in_range (SInt w) a" "in_range (SInt w) b" "0 < w"
  shows "\<bar>a * b\<bar> \<le> 2 ^ (2 * w - 2)"
proof -
  have "\<bar>a\<bar> \<le> 2 ^ (w - 1)" "\<bar>b\<bar> \<le> 2 ^ (w - 1)"
    using assms by (auto simp: cint_simps in_range_SInt in_range_UInt)
  then have "\<bar>a\<bar> * \<bar>b\<bar> \<le> 2 ^ (w - 1) * 2 ^ (w - 1)"
    by (intro mult_mono) simp_all
  also have "(2::int) ^ (w - 1) * 2 ^ (w - 1) = 2 ^ (2 * w - 2)"
    using assms(3) by (simp flip: power_add)
  finally show ?thesis
    by (simp add: abs_mult)
qed

lemma bias_int:
  assumes "0 < n" "n \<le> 32"
  shows "\<bar>conv c_int (2 ^ (n - 1))\<bar> \<le> 2 ^ (n - 1)"
proof (cases "n \<le> 31")
  case True
  then have "(2::int) ^ (n - 1) < 2 ^ 31"
    using assms by (intro power_strict_increasing) simp_all
  moreover have "- (2 ^ 31) \<le> (2::int) ^ (n - 1)"
    by (rule order_trans [of _ 0]) simp_all
  ultimately have "in_range c_int (2 ^ (n - 1))"
    unfolding in_range_SInt by simp
  then show ?thesis
    by (simp add: conv_SInt_id)
next
  case False
  then have "n = 32" using assms by simp
  then show ?thesis
    by (simp add: conv.simps)
qed

subsection \<open>Multiplication: rounding bias computed in \<open>int\<close>\<close>

text \<open>
  The product of two storage values always fits the double-width type, and so does the
  product plus the bias. The bias \<open>1 << (n-1)\<close> is an \<open>int\<close> expression: undefined for
  \<open>n = 0\<close> (negative count) and for \<open>n \<ge> 33\<close> (count not below 32), and for \<open>n = 32\<close>
  the shifted bit lands in the sign bit, giving \<open>-2^31\<close>.
\<close>

lemma q_mul_eq:
  assumes f: "valid_core f" and a: "qval f a" and b: "qval f b"
  shows "q_mul f a b =
    (if n_bits f = 0 \<or> 33 \<le> n_bits f then None
     else Some (conv (qty f) ((a * b + conv c_int (2 ^ (n_bits f - 1))) div 2 ^ n_bits f)))"
proof -
  let ?w = "storage_bits f" and ?n = "n_bits f"
  let ?W = "SInt (2 * ?w)" and ?P = "SInt (max 32 (2 * ?w))"
  have w: "8 \<le> ?w" "?w \<le> 64" "wide_bits f = 2 * ?w" "?n < ?w"
    using f by (simp_all add: fmt_simps)
  have aW: "in_range ?W a" and bW: "in_range ?W b"
    using in_range_SInt_mono [OF a] in_range_SInt_mono [OF b] by simp_all
  have ab: "\<bar>a * b\<bar> \<le> 2 ^ (2 * ?w - 2)"
    using prod_abs_bound [OF a b] w by simp
  have e: "2 * ?w - 1 = Suc (2 * ?w - 2)"
    using w by simp
  have pw: "(2::int) ^ (2 * ?w - 2) * 2 = 2 ^ (2 * ?w - 1)"
    unfolding e by (simp add: mult.commute)
  have big: "(2::int) ^ (2 * ?w - 2) * 2 \<le> 2 ^ (max 32 (2 * ?w) - 1)"
    unfolding pw by (intro power_increasing) simp_all
  have pos: "(0::int) < 2 ^ (2 * ?w - 2)"
    by simp
  have ab2: "a * b \<le> 2 ^ (2 * ?w - 2)" "- (2 ^ (2 * ?w - 2)) \<le> a * b"
    using ab by (auto simp: abs_le_iff)
  have abP: "in_range ?P (a * b)"
    unfolding in_range_SInt using ab2 big pos by linarith
  show ?thesis
  proof (cases "?n = 0 \<or> 33 \<le> ?n")
    case True
    then show ?thesis
      using aW bW abP w by (auto simp: q_mul_def c_mul_def c_sub_def cint_simps)
  next
    case False
    let ?B = "conv c_int (2 ^ (?n - 1))"
    have B: "\<bar>?B\<bar> \<le> 2 ^ (?n - 1)"
      using False by (intro bias_int) simp_all
    have lt: "(2::int) ^ (?n - 1) < 2 ^ (2 * ?w - 2)"
      using w by (intro power_strict_increasing) simp_all
    have B1: "?B \<le> 2 ^ (?n - 1)" "- (2 ^ (?n - 1)) \<le> ?B"
      using B unfolding abs_le_iff by linarith+
    have B2: "?B < 2 ^ (2 * ?w - 2)" "- (2 ^ (2 * ?w - 2)) < ?B"
      using B1 lt by linarith+
    have sP: "in_range ?P (a * b + ?B)"
      unfolding in_range_SInt using ab2 B2 big pos by linarith
    have abW: "in_range ?W (a * b)"
      unfolding in_range_SInt using ab2 pw pos by (intro conjI) linarith+
    have Bi: "in_range c_int ?B"
      by (rule conv_in_range) simp
    have nn: "nat (int ?n - 1) = ?n - 1"
      by simp
    have mx: "max 32 (max (2 * ?w) 32) = max 32 (2 * ?w)"
      by simp
    have ki: "in_range c_int (int ?n - 1)" "in_range c_int (int ?n)"
      using w by (simp_all add: in_range_SInt)
    have sh: "int ?n < int (max 32 (2 * ?w))"
      using w by simp
    show ?thesis
      using False aW bW abP sP abW Bi w nn mx sh ki
      by (simp add: q_mul_def c_mul_def c_sub_def c_add_def cint_simps)
  qed
qed

subsection \<open>Division: saturation on a zero divisor, truncation otherwise\<close>

lemma abs_mult_le_pow:
  fixes a b :: int
  assumes "\<bar>a\<bar> \<le> 2 ^ i" "\<bar>b\<bar> \<le> 2 ^ j"
  shows "\<bar>a * b\<bar> \<le> 2 ^ (i + j)"
proof -
  have "\<bar>a\<bar> * \<bar>b\<bar> \<le> 2 ^ i * 2 ^ j"
    using assms by (intro mult_mono) simp_all
  then show ?thesis
    by (simp add: abs_mult power_add)
qed

text \<open>
  The dividend \<open>(wide)a << n\<close> is exact: \<open>|a * 2^n| \<le> 2^(2w-2)\<close>. The quotient is no
  larger than the dividend, so \<open>/\<close> never overflows; the final cast wraps it.
\<close>

lemma q_div_eq:
  assumes f: "valid_core f" and a: "qval f a" and b: "qval f b"
  shows "q_div f a b =
    Some (if b = 0 then (if 0 \<le> a then cmax (qty f) else cmin (qty f))
          else conv (qty f) ((a * 2 ^ n_bits f) sdiv b))"
proof -
  let ?w = "storage_bits f" and ?n = "n_bits f"
  let ?W = "SInt (2 * ?w)" and ?P = "SInt (max 32 (2 * ?w))"
  have w: "8 \<le> ?w" "?w \<le> 64" "wide_bits f = 2 * ?w" "?n < ?w"
    using f by (simp_all add: fmt_simps)
  have aW: "in_range ?W a"
    using in_range_SInt_mono [OF a] by simp
  have a1: "\<bar>a\<bar> \<le> 2 ^ (?w - 1)"
    using a by (auto simp: cint_simps in_range_SInt in_range_UInt)
  have n1: "\<bar>(2::int) ^ ?n\<bar> \<le> 2 ^ (?w - 1)"
    using w by (simp add: power_increasing)
  have e: "2 * ?w - 1 = Suc (2 * ?w - 2)" "?w - 1 + (?w - 1) = 2 * ?w - 2"
    using w by simp_all
  have pw: "(2::int) ^ (2 * ?w - 2) * 2 = 2 ^ (2 * ?w - 1)"
    unfolding e by (simp add: mult.commute)
  have pos: "(0::int) < 2 ^ (2 * ?w - 2)"
    by simp
  have big: "(2::int) ^ (2 * ?w - 2) * 2 \<le> 2 ^ (max 32 (2 * ?w) - 1)"
    unfolding pw by (intro power_increasing) simp_all
  have d: "\<bar>a * 2 ^ ?n\<bar> \<le> 2 ^ (2 * ?w - 2)"
    using abs_mult_le_pow [OF a1 n1] e(2) by simp
  then have d2: "a * 2 ^ ?n \<le> 2 ^ (2 * ?w - 2)" "- (2 ^ (2 * ?w - 2)) \<le> a * 2 ^ ?n"
    unfolding abs_le_iff by linarith+
  have dP: "in_range ?P (a * 2 ^ ?n)" and dW: "in_range ?W (a * 2 ^ ?n)"
    unfolding in_range_SInt using d2 pw pos big by (intro conjI; linarith)+
  have q: "\<bar>(a * 2 ^ ?n) sdiv b\<bar> \<le> \<bar>a * 2 ^ ?n\<bar>"
    by (rule sdiv_abs_le)
  have qP: "in_range ?P ((a * 2 ^ ?n) sdiv b)"
    unfolding in_range_SInt using q d2 pw pos big unfolding abs_le_iff
    by (intro conjI; linarith)
  have bi: "in_range c_int 0"
    by (simp add: cint_simps in_range_SInt in_range_UInt)
  have mx: "max 32 (max (2 * ?w) ?w) = max 32 (2 * ?w)"
    by simp
  have sh: "int ?n < int (max 32 (2 * ?w))"
    using w by simp
  show ?thesis
  proof (cases "b = 0")
    case True
    then show ?thesis
      using f a b bi by (simp add: q_div_def cint_simps q_MAX_eq q_MIN_eq)
  next
    case False
    then show ?thesis
      using f a b bi aW dP dW qP mx sh w
      by (simp add: q_div_def cint_simps)
  qed
qed

subsection \<open>Conversion from and to \<open>double\<close>\<close>

lemma real_trunc_of_int [simp]: "real_trunc (real_of_int k) = k"
  by (simp add: real_trunc_def)






subsection \<open>Concrete formats\<close>

text \<open>Formats used by the examples: Q7.8 (16-bit), Q31.32 and Q20.40 (64-bit).\<close>

lemma valid_core_Q7_8: "valid_core \<lparr>m_bits = 7, n_bits = 8, storage_bits = 16, wide_bits = 32\<rparr>"
  by (simp add: valid_core_def header_format_def total_bits_def)

lemma valid_core_Q31_32: "valid_core \<lparr>m_bits = 31, n_bits = 32, storage_bits = 64, wide_bits = 128\<rparr>"
  by (simp add: valid_core_def header_format_def total_bits_def)

lemma valid_core_Q20_40: "valid_core \<lparr>m_bits = 20, n_bits = 40, storage_bits = 64, wide_bits = 128\<rparr>"
  by (simp add: valid_core_def header_format_def total_bits_def)

lemma q_mul_round_eq:
  assumes "valid_core f" "0 < n_bits f" "n_bits f \<le> 31" "qval f a" "qval f b"
  shows "q_mul f a b = Some (conv (qty f) ((a * b + 2 ^ (n_bits f - 1)) div 2 ^ n_bits f))"
proof -
  have "(2::int) ^ (n_bits f - 1) < 2 ^ 31"
    using assms(2,3) by (intro power_strict_increasing) simp_all
  moreover have "- (2 ^ 31) \<le> (2::int) ^ (n_bits f - 1)"
    by (rule order_trans [of _ 0]) simp_all
  ultimately have "conv c_int (2 ^ (n_bits f - 1)) = 2 ^ (n_bits f - 1)"
    by (intro conv_SInt_id) (simp add: in_range_SInt)
  then show ?thesis
    using assms q_mul_eq [OF assms(1,4,5)] by simp
qed

subsection \<open>Properties of the arithmetic core\<close>

text \<open>
  C1: \<open>add\<close> and \<open>sub\<close> are two's complement addition and subtraction at the storage
  width: on the signed readings of two machine words they return the signed reading of the
  wrapping sum and difference, for every format the selector accepts (overflow wraps silently,
  e.g. \<open>add(MAX, 1) = MIN\<close> and \<open>sub(MIN, 1) = MAX\<close>).
\<close>

theorem q_add_sub_word:
  assumes "valid_core f" and "LENGTH('a) = storage_bits f"
  shows "q_add f (sint (x :: 'a::len word)) (sint y) = Some (sint (x + y)) \<and>
         q_sub f (sint x) (sint y) = Some (sint (x - y))"
  using assms by (simp add: q_add_eq q_sub_eq conv.simps sint_word_add sint_word_diff)

theorem q_add_sub_word_witness:
  "valid_core \<lparr>m_bits = 7, n_bits = 8, storage_bits = 16, wide_bits = 32\<rparr> \<and>
   LENGTH(16) = storage_bits \<lparr>m_bits = 7, n_bits = 8, storage_bits = 16, wide_bits = 32\<rparr> \<and>
   q_add \<lparr>m_bits = 7, n_bits = 8, storage_bits = 16, wide_bits = 32\<rparr> 32767 1 = Some (- 32768) \<and>
   q_sub \<lparr>m_bits = 7, n_bits = 8, storage_bits = 16, wide_bits = 32\<rparr> (- 32768) 1 = Some 32767"
proof -
  note v = valid_core_Q7_8
  have "q_add \<lparr>m_bits = 7, n_bits = 8, storage_bits = 16, wide_bits = 32\<rparr>
          (sint (32767 :: 16 word)) (sint (1 :: 16 word)) = Some (sint (32767 + 1 :: 16 word))"
    using q_add_sub_word [OF v, of "32767 :: 16 word" 1] by simp
  moreover have "q_sub \<lparr>m_bits = 7, n_bits = 8, storage_bits = 16, wide_bits = 32\<rparr>
          (sint (- 32768 :: 16 word)) (sint (1 :: 16 word)) = Some (sint (- 32768 - 1 :: 16 word))"
    using q_add_sub_word [OF v, of "- 32768 :: 16 word" 1] by simp
  ultimately show ?thesis
    using v by simp
qed

text \<open>
  C2: for \<open>1 \<le> n \<le> 31\<close>, \<open>mul\<close> returns the exact product rounded half up at the
  binary point (bias \<open>2^(n-1)\<close> added before an arithmetic shift, so negative products
  round toward \<open>+\<infinity>\<close> on ties) and wrapped to the storage width.
\<close>

theorem q_mul_round:
  assumes "valid_core f" "0 < n_bits f" "n_bits f \<le> 31" "qval f a" "qval f b"
  shows "q_mul f a b = Some (conv (qty f) ((a * b + 2 ^ (n_bits f - 1)) div 2 ^ n_bits f))"
  using assms by (rule q_mul_round_eq)

theorem q_mul_round_witness:
  "valid_core \<lparr>m_bits = 7, n_bits = 8, storage_bits = 16, wide_bits = 32\<rparr> \<and>
   q_mul \<lparr>m_bits = 7, n_bits = 8, storage_bits = 16, wide_bits = 32\<rparr> 384 (-384) = Some (-576)"
  using q_mul_round [OF valid_core_Q7_8, of 384 "-384"] valid_core_Q7_8
  by (simp add: cint_simps in_range_SInt in_range_UInt conv.simps)

lemma q_mul_n32_one_eq:
  assumes "valid_core f" "n_bits f = 32" "qval f a"
  shows "q_mul f a (2 ^ 32) = Some (conv (qty f) (a - 1))"
proof -
  have w: "storage_bits f = 64"
    using valid_core_widths [OF assms(1)] valid_core_bits(1) [OF assms(1)] assms(2) by auto
  then have b: "qval f (2 ^ 32)"
    by (simp add: cint_simps in_range_SInt in_range_UInt)
  have "conv c_int (2 ^ 31) = - (2 ^ 31)"
    by (simp add: conv.simps)
  moreover have "(a * 2 ^ 32 + - (2 ^ 31)) div 2 ^ 32 = a - 1"
    by simp
  ultimately show ?thesis
    using q_mul_eq [OF assms(1,3) b] assms(2) by simp
qed

text \<open>
  C3: the rounding bias \<open>1 << (n-1)\<close> of \<open>mul\<close> is an \<open>int\<close> expression. For \<open>n = 0\<close>
  and for \<open>n \<ge> 33\<close> it shifts by a negative count or by at least 32, so every call of
  \<open>mul\<close> has undefined behaviour; for \<open>n = 32\<close> (e.g. Q31.32) it lands in the sign bit and
  is \<open>-2^31\<close>, so multiplying by \<open>ONE = 2^32\<close> returns \<open>x - 1\<close> (one ULP less than \<open>x\<close>,
  wrapped) instead of \<open>x\<close>.
\<close>

theorem q_mul_int_bias:
  assumes "valid_core f" "qval f a" "qval f b"
  shows "(n_bits f = 0 \<or> 33 \<le> n_bits f \<longrightarrow> q_mul f a b = None) \<and>
         (n_bits f = 32 \<longrightarrow> q_mul f a (2 ^ 32) = Some (conv (qty f) (a - 1)))"
  using q_mul_eq [OF assms] q_mul_n32_one_eq [OF assms(1) _ assms(2)] by auto

theorem q_mul_int_bias_witness:
  "valid_core \<lparr>m_bits = 20, n_bits = 40, storage_bits = 64, wide_bits = 128\<rparr> \<and>
   q_mul \<lparr>m_bits = 20, n_bits = 40, storage_bits = 64, wide_bits = 128\<rparr> (2 ^ 40) (2 ^ 40) = None \<and>
   valid_core \<lparr>m_bits = 31, n_bits = 32, storage_bits = 64, wide_bits = 128\<rparr> \<and>
   q_mul \<lparr>m_bits = 31, n_bits = 32, storage_bits = 64, wide_bits = 128\<rparr> (3 * 2 ^ 31) (2 ^ 32)
     = Some (3 * 2 ^ 31 - 1)"
proof -
  have "q_mul \<lparr>m_bits = 20, n_bits = 40, storage_bits = 64, wide_bits = 128\<rparr> (2 ^ 40) (2 ^ 40) = None"
    using q_mul_int_bias [OF valid_core_Q20_40, of "2 ^ 40" "2 ^ 40"]
    by (simp add: cint_simps in_range_SInt in_range_UInt)
  moreover have "q_mul \<lparr>m_bits = 31, n_bits = 32, storage_bits = 64, wide_bits = 128\<rparr> (3 * 2 ^ 31) (2 ^ 32)
     = Some (3 * 2 ^ 31 - 1)"
    using q_mul_int_bias [OF valid_core_Q31_32, of "3 * 2 ^ 31" "2 ^ 32"]
    by (simp add: cint_simps in_range_SInt in_range_UInt conv.simps)
  ultimately show ?thesis
    using valid_core_Q20_40 valid_core_Q31_32 by simp
qed

text \<open>
  C4: for \<open>m \<ge> 1\<close> and \<open>1 \<le> n \<le> 31\<close>, \<open>ONE\<close> is \<open>2^n\<close> and multiplying by \<open>ONE\<close>
  is the identity on every value, including values near \<open>MAX\<close> and \<open>MIN\<close>.
\<close>

theorem q_mul_one_exact:
  assumes "valid_core f" "0 < m_bits f" "0 < n_bits f" "n_bits f \<le> 31" "qval f x"
  shows "q_ONE f = Some (2 ^ n_bits f) \<and> q_mul f x (2 ^ n_bits f) = Some x"
proof -
  let ?n = "n_bits f" and ?w = "storage_bits f"
  have nw: "?n + 2 \<le> ?w"
    using valid_core_bits(1) [OF assms(1)] assms(2) by simp
  have lt: "(2::int) ^ ?n < 2 ^ (?w - 1)"
    using nw by (intro power_strict_increasing) simp_all
  have one: "qval f (2 ^ ?n)"
    using lt by (simp add: in_range_SInt) (rule order_trans [of _ 0], simp_all)
  have "(2::int) ^ ?n < 2 ^ 63"
    using assms(4) by (intro power_strict_increasing) simp_all
  then obtain t where lit: "c_lit (2 ^ ?n) = Some (t, 2 ^ ?n)"
    using c_lit_small [of "2 ^ ?n"] by auto
  have "q_ONE f = Some (2 ^ ?n)"
    using one by (simp add: q_ONE_def lit conv_SInt_id del: q_WRAP_simp) (simp add: q_WRAP_def c_cast_def conv_SInt_id)
  moreover have "(x * 2 ^ ?n + 2 ^ (?n - 1)) div 2 ^ ?n = x"
  proof -
    have "(2::int) ^ (?n - 1) < 2 ^ ?n"
      using assms(3) by (intro power_strict_increasing) simp_all
    then have "2 ^ (?n - 1) div (2::int) ^ ?n = 0"
      by (simp add: div_pos_pos_trivial)
    then show ?thesis
      by (simp add: add.commute)
  qed
  moreover have "conv (qty f) x = x"
    using assms(5) by (rule conv_SInt_id)
  ultimately show ?thesis
    using q_mul_round_eq [OF assms(1,3,4,5) one] by simp
qed

theorem q_mul_one_exact_witness:
  "valid_core \<lparr>m_bits = 7, n_bits = 8, storage_bits = 16, wide_bits = 32\<rparr> \<and>
   q_ONE \<lparr>m_bits = 7, n_bits = 8, storage_bits = 16, wide_bits = 32\<rparr> = Some 256 \<and>
   q_mul \<lparr>m_bits = 7, n_bits = 8, storage_bits = 16, wide_bits = 32\<rparr> 32767 256 = Some 32767"
  using q_mul_one_exact [OF valid_core_Q7_8, of 32767] valid_core_Q7_8
  by (simp add: cint_simps in_range_SInt in_range_UInt)

text \<open>
  C5: division by zero saturates: \<open>div(a, 0)\<close> is \<open>MAX = 2^(w-1) - 1\<close> for \<open>a \<ge> 0\<close>
  and \<open>MIN = -2^(w-1)\<close> for \<open>a < 0\<close>, for every value \<open>a\<close>; it never fails.
\<close>

theorem q_div_by_zero:
  assumes "valid_core f" "qval f a"
  shows "q_div f a 0 = Some (if 0 \<le> a then 2 ^ (storage_bits f - 1) - 1
                              else - (2 ^ (storage_bits f - 1)))"
proof -
  have "qval f 0"
    by (simp add: cint_simps in_range_SInt in_range_UInt)
  then show ?thesis
    using q_div_eq [OF assms, of 0] by simp
qed

theorem q_div_by_zero_witness:
  "valid_core \<lparr>m_bits = 7, n_bits = 8, storage_bits = 16, wide_bits = 32\<rparr> \<and>
   q_div \<lparr>m_bits = 7, n_bits = 8, storage_bits = 16, wide_bits = 32\<rparr> 384 0 = Some 32767 \<and>
   q_div \<lparr>m_bits = 7, n_bits = 8, storage_bits = 16, wide_bits = 32\<rparr> (-1) 0 = Some (-32768)"
  using q_div_by_zero [OF valid_core_Q7_8, of 384] q_div_by_zero [OF valid_core_Q7_8, of "-1"]
    valid_core_Q7_8
  by (simp add: cint_simps in_range_SInt in_range_UInt)

text \<open>
  C6: for a nonzero divisor, \<open>div\<close> never has undefined behaviour: it returns the exact
  quotient \<open>(a * 2^n) / b\<close> truncated toward zero, wrapped to the storage width (an
  overflowing quotient wraps silently; it does not saturate as the zero-divisor case does).
\<close>

theorem q_div_trunc:
  assumes "valid_core f" "qval f a" "qval f b" "b \<noteq> 0"
  shows "q_div f a b = Some (conv (qty f) ((a * 2 ^ n_bits f) sdiv b))"
  using q_div_eq [OF assms(1-3)] assms(4) by simp

theorem q_div_trunc_witness:
  "valid_core \<lparr>m_bits = 7, n_bits = 8, storage_bits = 16, wide_bits = 32\<rparr> \<and>
   q_div \<lparr>m_bits = 7, n_bits = 8, storage_bits = 16, wide_bits = 32\<rparr> (-384) 512 = Some (-192) \<and>
   q_div \<lparr>m_bits = 7, n_bits = 8, storage_bits = 16, wide_bits = 32\<rparr> 32767 1 = Some (-256)"
  using q_div_trunc [OF valid_core_Q7_8, of "-384" 512] q_div_trunc [OF valid_core_Q7_8, of 32767 1]
    valid_core_Q7_8
  by (simp add: cint_simps in_range_SInt in_range_UInt conv.simps signed_divide_int_def)





end
