(* ===== verification/MathBasic.thy ===== *)
theory MathBasic
  imports Format
begin

text \<open>
  The math header \<open>q<m>_<n>_math.h\<close> printed by \<open>generate_math_header\<close>
  (\<open>src/scripts/generate_math_headers.py\<close>, lines 41--94): its constant macros and its
  inline functions \<open>abs\<close>, \<open>min\<close>, \<open>max\<close>, \<open>clamp\<close>, \<open>floor\<close>, \<open>ceil\<close>, \<open>round\<close>,
  \<open>trunc\<close>. A macro is re-evaluated at each use, so each constant is an \<open>int option\<close>:
  \<open>None\<close> where its expansion has undefined behaviour. The \<open>double\<close> literals are their
  binary64 values, written exactly.
\<close>

definition pi_dbl :: real where
  "pi_dbl = 884279719003555 / 2 ^ 48"

definition e_dbl :: real where
  "e_dbl = 6121026514868073 / 2 ^ 51"

text \<open>\<open>(T)(3.14159265358979323846 * (1LL << n))\<close> and the same for \<open>E\<close>.\<close>

definition math_PI :: "qfmt \<Rightarrow> int option" where
  "math_PI f = do {
     s \<leftarrow> c_shl (c_long, 1) (ci (int (n_bits f)));
     r \<leftarrow> c_of_double (qty f) (pi_dbl * real_of_int (snd s));
     Some (snd r)
   }"

definition math_E :: "qfmt \<Rightarrow> int option" where
  "math_E f = do {
     s \<leftarrow> c_shl (c_long, 1) (ci (int (n_bits f)));
     r \<leftarrow> c_of_double (qty f) (e_dbl * real_of_int (snd s));
     Some (snd r)
   }"

text \<open>\<open>ONE = (T)(1LL << n)\<close>, \<open>HALF = (T)(1LL << (n - 1))\<close>.\<close>

definition math_ONE :: "qfmt \<Rightarrow> int option" where
  "math_ONE f = do {
     s \<leftarrow> c_shl (c_long, 1) (ci (int (n_bits f)));
     Some (snd (c_cast (qty f) s))
   }"

definition math_HALF :: "qfmt \<Rightarrow> int option" where
  "math_HALF f = do {
     k \<leftarrow> c_sub (ci (int (n_bits f))) (ci 1);
     s \<leftarrow> c_shl (c_long, 1) k;
     Some (snd (c_cast (qty f) s))
   }"

text \<open>
  \<open>MAX = (T)((1LL << (total_bits - 1)) - 1)\<close>, \<open>MIN = (T)(-(1LL << (total_bits - 1)))\<close>:
  bounds of \<open>total_bits\<close>, not of the storage type.
\<close>

definition math_MAX :: "qfmt \<Rightarrow> int option" where
  "math_MAX f = do {
     k \<leftarrow> c_sub (ci (int (total_bits (m_bits f) (n_bits f)))) (ci 1);
     s \<leftarrow> c_shl (c_long, 1) k;
     r \<leftarrow> c_sub s (ci 1);
     Some (snd (c_cast (qty f) r))
   }"

definition math_MIN :: "qfmt \<Rightarrow> int option" where
  "math_MIN f = do {
     k \<leftarrow> c_sub (ci (int (total_bits (m_bits f) (n_bits f)))) (ci 1);
     s \<leftarrow> c_shl (c_long, 1) k;
     r \<leftarrow> c_neg s;
     Some (snd (c_cast (qty f) r))
   }"

text \<open>\<open>abs\<close>: \<open>(x < 0) ? -x : x\<close>, returned as \<open>T\<close>.\<close>

definition math_abs :: "qfmt \<Rightarrow> int \<Rightarrow> int option" where
  "math_abs f x =
     (if c_less (qv f x) (ci 0) then map_option (\<lambda>r. snd (c_cast (qty f) r)) (c_neg (qv f x))
      else Some x)"

definition math_min :: "qfmt \<Rightarrow> int \<Rightarrow> int \<Rightarrow> int" where
  "math_min f a b = (if c_less (qv f a) (qv f b) then a else b)"

definition math_max :: "qfmt \<Rightarrow> int \<Rightarrow> int \<Rightarrow> int" where
  "math_max f a b = (if c_less (qv f b) (qv f a) then a else b)"

definition math_clamp :: "qfmt \<Rightarrow> int \<Rightarrow> int \<Rightarrow> int \<Rightarrow> int" where
  "math_clamp f x lo hi = math_min f (math_max f x lo) hi"

text \<open>
  \<open>floor\<close>: \<open>const T frac_mask = ONE - 1;\<close> then \<open>x & ~frac_mask\<close> for \<open>x >= 0\<close>,
  and for \<open>x < 0\<close>: \<open>(x & frac_mask) ? ((x & ~frac_mask) - ONE) : x\<close>.
\<close>

definition math_floor :: "qfmt \<Rightarrow> int \<Rightarrow> int option" where
  "math_floor f x = do {
     one \<leftarrow> math_ONE f;
     fm \<leftarrow> c_sub (qv f one) (ci 1);
     let frac_mask = snd (c_cast (qty f) fm);
     if c_le (ci 0) (qv f x) then Some (snd (c_cast (qty f) (c_and (qv f x) (c_not (qv f frac_mask)))))
     else if snd (c_and (qv f x) (qv f frac_mask)) \<noteq> 0 then do {
       r \<leftarrow> c_sub (c_and (qv f x) (c_not (qv f frac_mask))) (qv f one);
       Some (snd (c_cast (qty f) r))
     }
     else Some x
   }"

text \<open>
  \<open>ceil\<close>: for \<open>x >= 0\<close>: \<open>(x & frac_mask) ? ((x & ~frac_mask) + ONE) : x\<close>;
  for \<open>x < 0\<close>: \<open>x & ~frac_mask\<close>.
\<close>

definition math_ceil :: "qfmt \<Rightarrow> int \<Rightarrow> int option" where
  "math_ceil f x = do {
     one \<leftarrow> math_ONE f;
     fm \<leftarrow> c_sub (qv f one) (ci 1);
     let frac_mask = snd (c_cast (qty f) fm);
     if c_le (ci 0) (qv f x) then
       (if snd (c_and (qv f x) (qv f frac_mask)) \<noteq> 0 then do {
          r \<leftarrow> c_add (c_and (qv f x) (c_not (qv f frac_mask))) (qv f one);
          Some (snd (c_cast (qty f) r))
        }
        else Some x)
     else Some (snd (c_cast (qty f) (c_and (qv f x) (c_not (qv f frac_mask)))))
   }"

text \<open>
  \<open>round\<close>: \<open>(x + HALF) & ~(ONE - 1)\<close> for \<open>x >= 0\<close>, \<open>(x - HALF) & ~(ONE - 1)\<close>
  otherwise.
\<close>

definition math_round :: "qfmt \<Rightarrow> int \<Rightarrow> int option" where
  "math_round f x = do {
     half \<leftarrow> math_HALF f;
     one \<leftarrow> math_ONE f;
     s \<leftarrow> (if c_le (ci 0) (qv f x) then c_add (qv f x) (qv f half) else c_sub (qv f x) (qv f half));
     m \<leftarrow> c_sub (qv f one) (ci 1);
     Some (snd (c_cast (qty f) (c_and s (c_not m))))
   }"

text \<open>\<open>trunc\<close>: \<open>x & ~(ONE - 1)\<close>.\<close>

definition math_trunc :: "qfmt \<Rightarrow> int \<Rightarrow> int option" where
  "math_trunc f x = do {
     one \<leftarrow> math_ONE f;
     m \<leftarrow> c_sub (qv f one) (ci 1);
     Some (snd (c_cast (qty f) (c_and (qv f x) (c_not m))))
   }"

lemmas [c_eval] = pi_dbl_def e_dbl_def math_PI_def math_E_def math_ONE_def math_HALF_def
  math_MAX_def math_MIN_def math_abs_def math_min_def math_max_def math_clamp_def
  math_floor_def math_ceil_def math_round_def math_trunc_def total_bits_def

subsection \<open>Constants\<close>

lemma shl_long_one:
  assumes "0 \<le> k" "k < 64"
  shows "c_shl (c_long, 1) (c_int, k) = Some (c_long, conv c_long (2 ^ nat k))"
proof -
  have "in_range c_long 1"
    by (simp add: in_range_SInt)
  then show ?thesis
    using assms by (simp add: c_shl_SInt)
qed

lemma math_ONE_eq:
  assumes "valid_math f"
  shows "math_ONE f = Some (conv (qty f) (2 ^ n_bits f))"
proof -
  have n: "n_bits f < 64" "0 < storage_bits f" "storage_bits f \<le> 64"
    using valid_math_bits [OF assms] by simp_all
  then show ?thesis
    by (simp add: math_ONE_def shl_long_one conv_SInt_conv_wider c_cast_simp)
qed

lemma math_ONE_pow:
  assumes "valid_math f" "n_bits f + 2 \<le> storage_bits f"
  shows "math_ONE f = Some (2 ^ n_bits f)"
  using math_ONE_eq [OF assms(1)] pow_in_range(1) [OF assms(2)] by (simp add: conv_SInt_id)

lemma math_HALF_eq:
  assumes "valid_math f"
  shows "math_HALF f = (if n_bits f = 0 then None else Some (conv (qty f) (2 ^ (n_bits f - 1))))"
proof -
  have n: "n_bits f < 64" "0 < storage_bits f" "storage_bits f \<le> 64"
    using valid_math_bits [OF assms] by simp_all
  have s: "c_sub (ci (int (n_bits f))) (ci 1) = Some (c_int, int (n_bits f) - 1)"
    using n by (intro c_sub_int_lits) simp_all
  show ?thesis
  proof (cases "n_bits f = 0")
    case True
    then show ?thesis
      using s by (simp add: math_HALF_def c_shl_SInt in_range_SInt)
  next
    case False
    then have "nat (int (n_bits f) - 1) = n_bits f - 1"
      by simp
    then show ?thesis
      using s n False by (simp add: math_HALF_def shl_long_one conv_SInt_conv_wider c_cast_simp)
  qed
qed

lemma math_MAX_eq:
  assumes "valid_math f"
  shows "math_MAX f =
    (if total_bits (m_bits f) (n_bits f) = 64 then None
     else Some (2 ^ (m_bits f + n_bits f) - 1))"
proof -
  let ?k = "m_bits f + n_bits f"
  have n: "?k + 1 \<le> storage_bits f" "storage_bits f \<le> 64" "0 < storage_bits f"
    using valid_math_bits [OF assms] by simp_all
  have s: "c_sub (ci (int (total_bits (m_bits f) (n_bits f)))) (ci 1) = Some (c_int, int ?k)"
    using n c_sub_int_lits [of "int (total_bits (m_bits f) (n_bits f))"]
    by (simp add: total_bits_def)
  have l1: "in_range c_long 1"
    by (simp add: in_range_SInt)
  show ?thesis
  proof (cases "?k = 63")
    case True
    have "conv c_long (2 ^ 63) = - (2 ^ 63)"
      by (simp add: conv.simps)
    moreover have "\<not> in_range c_long (- (2 ^ 63) - 1)"
      by (simp add: in_range_SInt)
    ultimately show ?thesis
      using True s n l1 by (simp add: math_MAX_def shl_long_one total_bits_def c_sub_def
          c_binop_SInt c_result_SInt in_range_SInt)
  next
    case False
    then have k: "?k \<le> 62"
      using n by simp
    then have r: "in_range c_long (2 ^ ?k)" "in_range c_long (2 ^ ?k - 1)"
      using pow_in_range [of ?k 64] by simp_all
    have t: "in_range (qty f) (2 ^ ?k - 1)"
    proof -
      have "(2::int) ^ ?k \<le> 2 ^ (storage_bits f - 1)"
        using n by (intro power_increasing) simp_all
      moreover have "(0::int) < 2 ^ ?k" "(0::int) < 2 ^ (storage_bits f - 1)"
        by simp_all
      ultimately show ?thesis
        unfolding in_range_SInt by (intro conjI) linarith+
    qed
    have nk: "nat (int (m_bits f) + int (n_bits f)) = ?k"
      by simp
    show ?thesis
      using False s n l1 r t k nk by (simp add: math_MAX_def shl_long_one total_bits_def c_sub_def
          c_binop_SInt c_result_SInt conv_SInt_id c_cast_simp in_range_int_const)
  qed
qed

lemma frac_mask_facts:
  assumes f: "valid_math f" and r: "n_bits f + 2 \<le> storage_bits f"
  shows "c_sub (qv f (2 ^ n_bits f)) (ci 1) = Some (SInt (max 32 (storage_bits f)), 2 ^ n_bits f - 1)"
    and "conv (qty f) (2 ^ n_bits f - 1) = 2 ^ n_bits f - 1"
    and "c_not (SInt (max 32 (storage_bits f)), 2 ^ n_bits f - 1) =
           (SInt (max 32 (storage_bits f)), - (2 ^ n_bits f))"
    and "c_not (qv f (2 ^ n_bits f - 1)) = (SInt (max 32 (storage_bits f)), - (2 ^ n_bits f))"
    and "qval f x \<Longrightarrow> c_and (qv f x) (SInt (max 32 (storage_bits f)), - (2 ^ n_bits f)) =
           (SInt (max 32 (storage_bits f)), x - x mod 2 ^ n_bits f)"
    and "qval f x \<Longrightarrow> snd (c_and (qv f x) (qv f (2 ^ n_bits f - 1))) = x mod 2 ^ n_bits f"
proof -
  note p = pow_in_range [OF r]
  have m1: "in_range (SInt (max 32 (storage_bits f))) (2 ^ n_bits f - 1)"
    using p(2) by (rule in_range_max32)
  have m3: "in_range (SInt (max 32 (storage_bits f))) (- (2 ^ n_bits f))"
    using p(3) by (rule in_range_max32)
  have nt: "NOT ((2::int) ^ n_bits f - 1) = - (2 ^ n_bits f)"
    by (simp add: not_int_def)
  show "c_sub (qv f (2 ^ n_bits f)) (ci 1) = Some (SInt (max 32 (storage_bits f)), 2 ^ n_bits f - 1)"
    using p(1) m1 by (simp add: c_sub_def c_binop_SInt c_result_SInt in_range_int_const max32_simps)
  show "conv (qty f) (2 ^ n_bits f - 1) = 2 ^ n_bits f - 1"
    using p(2) by (rule conv_SInt_id)
  show "c_not (SInt (max 32 (storage_bits f)), 2 ^ n_bits f - 1) =
           (SInt (max 32 (storage_bits f)), - (2 ^ n_bits f))"
    using m1 nt by (simp add: c_not_SInt max32_simps)
  show "c_not (qv f (2 ^ n_bits f - 1)) = (SInt (max 32 (storage_bits f)), - (2 ^ n_bits f))"
    using p(2) nt by (simp add: c_not_SInt)
  assume x: "qval f x"
  have "- ((2::int) ^ n_bits f) = NOT (2 ^ n_bits f - 1)"
    by (simp add: not_int_def)
  then have "x AND - (2 ^ n_bits f) = x - x mod 2 ^ n_bits f"
    by (simp add: and_not_mask_int)
  then show "c_and (qv f x) (SInt (max 32 (storage_bits f)), - (2 ^ n_bits f)) =
           (SInt (max 32 (storage_bits f)), x - x mod 2 ^ n_bits f)"
    using x m3 by (simp add: c_and_SInt max32_simps)
  show "snd (c_and (qv f x) (qv f (2 ^ n_bits f - 1))) = x mod 2 ^ n_bits f"
    using x p(2) by (simp add: c_and_SInt and_mask_int)
qed

lemma math_trunc_eq:
  assumes f: "valid_math f" and r: "n_bits f + 2 \<le> storage_bits f" and x: "qval f x"
  shows "math_trunc f x = Some (x - x mod 2 ^ n_bits f)"
proof -
  have "in_range (qty f) (x - x mod 2 ^ n_bits f)"
    using x r by (intro mask_down_in_range) simp_all
  then show ?thesis
    using frac_mask_facts [OF f r] x
    by (simp add: math_trunc_def math_ONE_pow [OF f r] c_cast_simp conv_SInt_id)
qed

lemma promoted_addsub:
  assumes f: "valid_math f" and x: "qval f x" and y: "qval f y" and g: "g = (+) \<or> g = (-)"
  shows "map_option (\<lambda>r. conv (qty f) (snd r)) (c_binop g (SInt (max 32 (storage_bits f)), x) (qv f y))
    = (if storage_bits f < 32 \<or> qval f (g x y) then Some (conv (qty f) (g x y)) else None)"
proof -
  have w: "storage_bits f \<le> 16 \<or> 32 \<le> storage_bits f" "0 < storage_bits f"
    using valid_math_widths [OF f] by auto
  show ?thesis
    using c_addsub_narrow [OF in_range_max32 [OF x] x y w _ g] by (simp add: max32_simps)
qed

lemma math_floor_eq:
  assumes f: "valid_math f" and r: "n_bits f + 2 \<le> storage_bits f" and x: "qval f x"
  shows "math_floor f x =
    (if 0 \<le> x then Some (x - x mod 2 ^ n_bits f)
     else if x mod 2 ^ n_bits f = 0 then Some x
     else if storage_bits f < 32 \<or> qval f (x - x mod 2 ^ n_bits f - 2 ^ n_bits f)
     then Some (conv (qty f) (x - x mod 2 ^ n_bits f - 2 ^ n_bits f)) else None)"
proof -
  let ?x' = "x - x mod 2 ^ n_bits f"
  have x': "qval f ?x'"
    using x r by (intro mask_down_in_range) simp_all
  have le: "c_le (ci 0) (qv f x) \<longleftrightarrow> 0 \<le> x"
    using x by (simp add: c_compare_SInt in_range_int_const)
  have sub: "map_option (\<lambda>r. conv (qty f) (snd r)) (c_sub (SInt (max 32 (storage_bits f)), ?x') (qv f (2 ^ n_bits f)))
    = (if storage_bits f < 32 \<or> qval f (?x' - 2 ^ n_bits f) then Some (conv (qty f) (?x' - 2 ^ n_bits f)) else None)"
    unfolding c_sub_def using promoted_addsub [OF f x' pow_in_range(1) [OF r], of "(-)"] by simp
  show ?thesis
    using frac_mask_facts [OF f r] x x' le sub
    by (simp add: math_floor_def math_ONE_pow [OF f r] c_cast_simp conv_SInt_id bind_Some_cast)
qed

lemma math_ceil_eq:
  assumes f: "valid_math f" and r: "n_bits f + 2 \<le> storage_bits f" and x: "qval f x"
  shows "math_ceil f x =
    (if x < 0 then Some (x - x mod 2 ^ n_bits f)
     else if x mod 2 ^ n_bits f = 0 then Some x
     else if storage_bits f < 32 \<or> qval f (x - x mod 2 ^ n_bits f + 2 ^ n_bits f)
     then Some (conv (qty f) (x - x mod 2 ^ n_bits f + 2 ^ n_bits f)) else None)"
proof -
  let ?x' = "x - x mod 2 ^ n_bits f"
  have x': "qval f ?x'"
    using x r by (intro mask_down_in_range) simp_all
  have le: "c_le (ci 0) (qv f x) \<longleftrightarrow> 0 \<le> x"
    using x by (simp add: c_compare_SInt in_range_int_const)
  have add: "map_option (\<lambda>r. conv (qty f) (snd r)) (c_add (SInt (max 32 (storage_bits f)), ?x') (qv f (2 ^ n_bits f)))
    = (if storage_bits f < 32 \<or> qval f (?x' + 2 ^ n_bits f) then Some (conv (qty f) (?x' + 2 ^ n_bits f)) else None)"
    unfolding c_add_def using promoted_addsub [OF f x' pow_in_range(1) [OF r], of "(+)"] by simp
  show ?thesis
    using frac_mask_facts [OF f r] x x' le add
    by (simp add: math_ceil_def math_ONE_pow [OF f r] c_cast_simp conv_SInt_id bind_Some_cast)
qed

lemma math_round_eq:
  assumes f: "valid_math f" and r: "n_bits f + 2 \<le> storage_bits f" and x: "qval f x"
  shows "math_round f x =
    (if n_bits f = 0 then None
     else let v = (if 0 \<le> x then x + 2 ^ (n_bits f - 1) else x - 2 ^ (n_bits f - 1)) in
       if storage_bits f < 32 \<or> qval f v then Some (conv (qty f) (v - v mod 2 ^ n_bits f))
       else None)"
proof (cases "n_bits f = 0")
  case True
  then show ?thesis
    by (simp add: math_round_def math_HALF_eq [OF f])
next
  case False
  let ?w = "storage_bits f" and ?h = "(2::int) ^ (n_bits f - 1)"
  let ?v = "if 0 \<le> x then x + ?h else x - ?h"
  have h: "qval f ?h"
    using r by (intro pow_in_range(1)) simp
  have hc: "conv (qty f) ?h = ?h"
    using h by (rule conv_SInt_id)
  have le: "c_le (ci 0) (qv f x) \<longleftrightarrow> 0 \<le> x"
    using x by (simp add: c_compare_SInt in_range_int_const)
  have s: "(if c_le (ci 0) (qv f x) then c_add (qv f x) (qv f ?h) else c_sub (qv f x) (qv f ?h))
      = c_result (SInt (max 32 ?w)) ?v"
    using x h le by (simp add: c_add_def c_sub_def c_binop_SInt max32_simps)
  have wv: "?w < 32 \<Longrightarrow> in_range (SInt (max 32 ?w)) ?v"
  proof -
    assume w: "?w < 32"
    then have "?w \<le> 16"
      using valid_math_widths [OF f] by auto
    then have A: "(2::int) ^ (?w - 1) \<le> 2 ^ 15"
      by (intro power_increasing) simp_all
    have B: "?h \<le> 2 ^ (?w - 1)"
      using r by (intro power_increasing) simp_all
    have X: "- (2 ^ (?w - 1)) \<le> x" "x < 2 ^ (?w - 1)"
      using x by (simp_all add: in_range_SInt)
    have "- (2 ^ 31) \<le> ?v \<and> ?v < 2 ^ 31"
      using small_shift_in_int [OF X _ B] A by simp
    moreover have "max 32 ?w = 32"
      using w by simp
    ultimately show ?thesis
      by (simp add: in_range_SInt)
  qed
  have and_v: "in_range (SInt (max 32 ?w)) ?v \<Longrightarrow>
      c_and (SInt (max 32 ?w), ?v) (SInt (max 32 ?w), - (2 ^ n_bits f))
        = (SInt (max 32 ?w), ?v - ?v mod 2 ^ n_bits f)"
  proof -
    assume v: "in_range (SInt (max 32 ?w)) ?v"
    have "- ((2::int) ^ n_bits f) = NOT (2 ^ n_bits f - 1)"
      by (simp add: not_int_def)
    then have "?v AND - (2 ^ n_bits f) = ?v - ?v mod 2 ^ n_bits f"
      by (simp only: and_not_mask_int)
    then show ?thesis
      using v in_range_max32 [OF pow_in_range(3) [OF r]] by (simp add: c_and_SInt max32_simps)
  qed
  have s': "(if 0 \<le> x then c_add (qv f x) (qv f ?h) else c_sub (qv f x) (qv f ?h))
      = c_result (SInt (max 32 ?w)) ?v"
    using s le by simp
  have e: "math_round f x = Option.bind (c_result (SInt (max 32 ?w)) ?v)
      (\<lambda>s. Some (conv (qty f) (snd (c_and s (SInt (max 32 ?w), - (2 ^ n_bits f))))))"
  proof -
    have "math_round f x = Option.bind
        (if 0 \<le> x then c_add (qv f x) (qv f ?h) else c_sub (qv f x) (qv f ?h))
        (\<lambda>s. Some (conv (qty f) (snd (c_and s (SInt (max 32 ?w), - (2 ^ n_bits f))))))"
      using False hc le frac_mask_facts(1,3) [OF f r]
      by (simp add: math_round_def math_HALF_eq [OF f] math_ONE_pow [OF f r] c_cast_def)
    then show ?thesis
      by (simp only: s')
  qed
  show ?thesis
  proof (cases "?w < 32 \<or> qval f ?v")
    case True
    then have v: "in_range (SInt (max 32 ?w)) ?v"
      using wv in_range_max32 [of ?w ?v] by auto
    then have "c_result (SInt (max 32 ?w)) ?v = Some (SInt (max 32 ?w), ?v)"
      by (simp add: c_result_SInt)
    then show ?thesis
      using False True and_v [OF v] unfolding e by (simp add: Let_def)
  next
    case False': False
    then have "max 32 ?w = ?w"
      by simp
    then have "c_result (SInt (max 32 ?w)) ?v = None"
      using False' by (simp add: c_result_SInt)
    then show ?thesis
      using False False' unfolding e by (simp add: Let_def)
  qed
qed

lemma math_abs_eq:
  assumes f: "valid_math f" and x: "qval f x"
  shows "math_abs f x =
    (if 0 \<le> x then Some x
     else if storage_bits f < 32 \<or> qval f (- x) then Some (conv (qty f) (- x)) else None)"
proof -
  have w: "storage_bits f \<le> 16 \<or> 32 \<le> storage_bits f" "0 < storage_bits f"
    using valid_math_widths [OF f] by auto
  have lt: "c_less (qv f x) (ci 0) \<longleftrightarrow> x < 0"
    using x by (simp add: c_compare_SInt in_range_int_const)
  have z: "in_range (SInt (max 32 (storage_bits f))) 0"
    by (simp add: in_range_SInt)
  have "c_neg (qv f x) = c_binop (-) (SInt (max 32 (storage_bits f)), 0) (qv f x)"
    using x c_binop_SInt [OF z x, of "(-)"] by (simp add: c_neg_SInt max32_simps)
  moreover have "qval f 0"
    by (simp add: in_range_SInt)
  ultimately have "map_option (\<lambda>r. conv (qty f) (snd r)) (c_neg (qv f x)) =
      (if storage_bits f < 32 \<or> qval f (- x) then Some (conv (qty f) (- x)) else None)"
    using promoted_addsub [OF f _ x, of 0 "(-)"] by simp
  then show ?thesis
    using lt by (auto simp: math_abs_def c_cast_def)
qed

lemma math_min_max_eq:
  assumes "qval f a" "qval f b"
  shows "math_min f a b = min a b" and "math_max f a b = max a b"
  using assms by (simp_all add: math_min_def math_max_def c_compare_SInt min_def max_def)

lemma math_MIN_eq:
  assumes "valid_math f"
  shows "math_MIN f =
    (if total_bits (m_bits f) (n_bits f) = 64 then None else Some (- (2 ^ (m_bits f + n_bits f))))"
proof -
  let ?k = "m_bits f + n_bits f"
  have n: "?k + 1 \<le> storage_bits f" "storage_bits f \<le> 64" "0 < storage_bits f"
    using valid_math_bits [OF assms] by simp_all
  have s: "c_sub (ci (int (total_bits (m_bits f) (n_bits f)))) (ci 1) = Some (c_int, int ?k)"
    using n c_sub_int_lits [of "int (total_bits (m_bits f) (n_bits f))"]
    by (simp add: total_bits_def)
  have nk: "nat (int (m_bits f) + int (n_bits f)) = ?k"
    by simp
  show ?thesis
  proof (cases "?k = 63")
    case True
    have "conv c_long (2 ^ 63) = - (2 ^ 63)"
      by (simp add: conv.simps)
    moreover have "in_range c_long (- (2 ^ 63))" "\<not> in_range c_long (2 ^ 63)"
      by (simp_all add: in_range_SInt)
    ultimately show ?thesis
      using True s n nk by (simp add: math_MIN_def shl_long_one total_bits_def c_neg_SInt
          c_result_SInt)
  next
    case False
    then have k: "?k \<le> 62"
      using n by simp
    then have r: "in_range c_long (2 ^ ?k)" "in_range c_long (- (2 ^ ?k))"
      using pow_in_range [of ?k 64] by simp_all
    have t: "in_range (qty f) (- (2 ^ ?k))"
    proof -
      have "(2::int) ^ ?k \<le> 2 ^ (storage_bits f - 1)"
        using n by (intro power_increasing) simp_all
      moreover have "(0::int) < 2 ^ ?k"
        by simp
      ultimately show ?thesis
        unfolding in_range_SInt by (intro conjI) linarith+
    qed
    show ?thesis
      using False s n r t k nk by (simp add: math_MIN_def shl_long_one total_bits_def c_neg_SInt
          c_result_SInt conv_SInt_id c_cast_simp)
  qed
qed

lemma pi_dbl_bounds: "3 < pi_dbl" "pi_dbl < 4"
  by (simp_all add: pi_dbl_def)

lemma math_PI_eq:
  assumes f: "valid_math f"
  shows "math_PI f =
    (if floor (pi_dbl * 2 ^ n_bits f) < 2 ^ (storage_bits f - 1)
     then Some (floor (pi_dbl * 2 ^ n_bits f)) else None)"
proof -
  let ?n = "n_bits f" and ?w = "storage_bits f"
  have n: "?n < ?w" "?w \<le> 64" "0 < ?w"
    using valid_math_bits [OF f] by simp_all
  show ?thesis
  proof (cases "?n = 63")
    case True
    then have w: "?w = 64"
      using n by simp
    have c: "conv c_long (2 ^ 63) = - (2 ^ 63)"
      by (simp add: conv.simps)
    have "real_trunc (pi_dbl * real_of_int (- (2 ^ 63))) = ceiling (- (pi_dbl * 2 ^ 63))"
      using pi_dbl_bounds by (simp add: real_trunc_def)
    also have "\<dots> = - floor (pi_dbl * 2 ^ 63)"
      by (simp add: ceiling_minus)
    finally have t: "real_trunc (pi_dbl * real_of_int (- (2 ^ 63))) = - floor (pi_dbl * 2 ^ 63)" .
    have "(2::int) ^ 64 \<le> floor (pi_dbl * 2 ^ 63)"
    proof -
      have "(2::real) ^ 64 \<le> pi_dbl * 2 ^ 63"
        using pi_dbl_bounds by simp
      then show ?thesis
        by (simp add: le_floor_iff)
    qed
    then have "\<not> in_range (qty f) (- floor (pi_dbl * 2 ^ 63))" "\<not> floor (pi_dbl * 2 ^ 63) < 2 ^ 63"
      using w by (simp_all add: in_range_SInt)
    then show ?thesis
      using True w c t by (simp add: math_PI_def shl_long_one c_of_double_def)
  next
    case False
    then have k: "?n \<le> 62"
      using n by simp
    then have "in_range c_long (2 ^ ?n)"
      using pow_in_range [of ?n 64] by simp
    then have c: "conv c_long (2 ^ ?n) = 2 ^ ?n"
      by (rule conv_SInt_id)
    have p: "0 \<le> pi_dbl * 2 ^ ?n"
      using pi_dbl_bounds by simp
    have "0 \<le> floor (pi_dbl * 2 ^ ?n)"
      using p by simp
    then have "in_range (qty f) (floor (pi_dbl * 2 ^ ?n)) \<longleftrightarrow>
        floor (pi_dbl * 2 ^ ?n) < 2 ^ (?w - 1)"
      unfolding in_range_SInt by (auto intro: order_trans [of _ 0])
    then show ?thesis
      using k c p n by (simp add: math_PI_def shl_long_one c_of_double_def real_trunc_def)
  qed
qed

subsection \<open>Results of the rounding functions\<close>

lemma valid_math_Q7_8: "valid_math \<lparr>m_bits = 7, n_bits = 8, storage_bits = 16\<rparr>"
  by (simp add: valid_math_def math_format_def total_bits_def)

lemma valid_math_Q15_16: "valid_math \<lparr>m_bits = 15, n_bits = 16, storage_bits = 32\<rparr>"
  by (simp add: valid_math_def math_format_def total_bits_def)

lemma valid_math_Q0_31: "valid_math \<lparr>m_bits = 0, n_bits = 31, storage_bits = 32\<rparr>"
  by (simp add: valid_math_def math_format_def total_bits_def)

lemma valid_math_Q31_0: "valid_math \<lparr>m_bits = 31, n_bits = 0, storage_bits = 32\<rparr>"
  by (simp add: valid_math_def math_format_def total_bits_def)

lemma math_integral_fixed:
  assumes f: "valid_math f" and r: "n_bits f + 2 \<le> storage_bits f" and y: "qval f y"
    and m: "y mod 2 ^ n_bits f = 0"
  shows "math_floor f y = Some y" and "math_ceil f y = Some y" and "math_trunc f y = Some y"
  using m by (simp_all add: math_floor_eq [OF f r y] math_ceil_eq [OF f r y] math_trunc_eq [OF f r y])

lemma conv_integral:
  assumes f: "valid_math f" and z: "z mod 2 ^ n_bits f = 0"
  shows "qval f (conv (qty f) z)" and "conv (qty f) z mod 2 ^ n_bits f = 0"
proof -
  have w: "0 < storage_bits f" "n_bits f \<le> storage_bits f"
    using valid_math_bits [OF f] by simp_all
  show "qval f (conv (qty f) z)"
    using w by (intro conv_in_range) simp
  show "conv (qty f) z mod 2 ^ n_bits f = 0"
    using w z by (simp add: conv_SInt_mod_low)
qed

lemma math_floor_result:
  assumes f: "valid_math f" and r: "n_bits f + 2 \<le> storage_bits f" and x: "qval f x"
    and y: "math_floor f x = Some y"
  shows "qval f y \<and> y mod 2 ^ n_bits f = 0"
proof -
  let ?x' = "x - x mod 2 ^ n_bits f"
  have x': "qval f ?x'"
    using x r by (intro mask_down_in_range) simp_all
  have m: "?x' mod 2 ^ n_bits f = 0" "(?x' - 2 ^ n_bits f) mod 2 ^ n_bits f = 0"
    by (simp_all add: mod_pow_split)
  have "y = ?x' \<or> (y = x \<and> x mod 2 ^ n_bits f = 0) \<or> y = conv (qty f) (?x' - 2 ^ n_bits f)"
    using y by (simp add: math_floor_eq [OF f r x] split: if_splits)
  then show ?thesis
    using x x' m conv_integral [OF f m(2)] by blast
qed

lemma math_ceil_result:
  assumes f: "valid_math f" and r: "n_bits f + 2 \<le> storage_bits f" and x: "qval f x"
    and y: "math_ceil f x = Some y"
  shows "qval f y \<and> y mod 2 ^ n_bits f = 0"
proof -
  let ?x' = "x - x mod 2 ^ n_bits f"
  have x': "qval f ?x'"
    using x r by (intro mask_down_in_range) simp_all
  have m: "?x' mod 2 ^ n_bits f = 0" "(?x' + 2 ^ n_bits f) mod 2 ^ n_bits f = 0"
    by (simp_all add: mod_pow_split)
  have "y = ?x' \<or> (y = x \<and> x mod 2 ^ n_bits f = 0) \<or> y = conv (qty f) (?x' + 2 ^ n_bits f)"
    using y by (simp add: math_ceil_eq [OF f r x] split: if_splits)
  then show ?thesis
    using x x' m conv_integral [OF f m(2)] by blast
qed

lemma pi_floor_less_pow:
  "floor (pi_dbl * 2 ^ n) < (2::int) ^ k \<longleftrightarrow> n + 2 \<le> k"
proof
  assume a: "floor (pi_dbl * 2 ^ n) < (2::int) ^ k"
  show "n + 2 \<le> k"
  proof (rule ccontr)
    assume "\<not> n + 2 \<le> k"
    then have "(2::real) ^ k \<le> 2 ^ (n + 1)"
      by (intro power_increasing) simp_all
    also have "\<dots> \<le> pi_dbl * 2 ^ n"
      using pi_dbl_bounds(1) by simp
    finally have "(2::int) ^ k \<le> floor (pi_dbl * 2 ^ n)"
      by (simp add: le_floor_iff)
    then show False
      using a by simp
  qed
next
  assume "n + 2 \<le> k"
  then have "(2::real) ^ (n + 2) \<le> 2 ^ k"
    by (intro power_increasing) simp_all
  moreover have "pi_dbl * 2 ^ n < 2 ^ (n + 2)"
    using pi_dbl_bounds(2) by simp
  ultimately have "pi_dbl * 2 ^ n < (2::real) ^ k"
    by linarith
  then show "floor (pi_dbl * 2 ^ n) < (2::int) ^ k"
    by (simp add: floor_less_iff)
qed

subsection \<open>Properties of the math header\<close>

text \<open>
  C11: \<open>floor\<close> rounds down to a multiple of \<open>ONE\<close> for non-negative values and for negative
  integral values, but for negative values with a fractional part it returns one \<open>ONE\<close> below
  the floor: \<open>floor(-1.5) = -3.0\<close>.
\<close>

theorem math_floor_spec:
  assumes f: "valid_math f" and r: "n_bits f + 2 \<le> storage_bits f" and x: "qval f x"
    and y: "qval f (2 ^ n_bits f * (x div 2 ^ n_bits f - (if x < 0 \<and> x mod 2 ^ n_bits f \<noteq> 0 then 1 else 0)))"
  shows "math_floor f x =
    Some (2 ^ n_bits f * (x div 2 ^ n_bits f - (if x < 0 \<and> x mod 2 ^ n_bits f \<noteq> 0 then 1 else 0)))"
proof -
  let ?n = "n_bits f"
  have e: "x - x mod 2 ^ ?n = 2 ^ ?n * (x div 2 ^ ?n)"
    by (rule mod_pow_split)
  consider "0 \<le> x" | "x < 0" "x mod 2 ^ ?n = 0" | "x < 0" "x mod 2 ^ ?n \<noteq> 0"
    by linarith
  then show ?thesis
  proof cases
    case 1
    then show ?thesis
      by (simp add: math_floor_eq [OF f r x] e)
  next
    case 2
    then show ?thesis
      using e by (simp add: math_floor_eq [OF f r x])
  next
    case 3
    have "x - x mod 2 ^ ?n - 2 ^ ?n = 2 ^ ?n * (x div 2 ^ ?n - 1)"
      by (simp add: e algebra_simps)
    then show ?thesis
      using 3 y by (simp add: math_floor_eq [OF f r x] conv_SInt_id)
  qed
qed

theorem math_floor_spec_witness:
  "math_floor \<lparr>m_bits = 7, n_bits = 8, storage_bits = 16\<rparr> (-384) = Some (-768)"
  using math_floor_spec [OF valid_math_Q7_8, of "-384"] by (simp add: in_range_SInt)

text \<open>
  C12: \<open>ceil\<close> rounds non-negative values up to the next multiple of \<open>ONE\<close>, but for every
  negative value it rounds down: \<open>ceil(-1.5) = -2.0\<close>.
\<close>

theorem math_ceil_spec:
  assumes f: "valid_math f" and r: "n_bits f + 2 \<le> storage_bits f" and x: "qval f x"
    and y: "qval f (2 ^ n_bits f * (x div 2 ^ n_bits f + (if 0 \<le> x \<and> x mod 2 ^ n_bits f \<noteq> 0 then 1 else 0)))"
  shows "math_ceil f x =
    Some (2 ^ n_bits f * (x div 2 ^ n_bits f + (if 0 \<le> x \<and> x mod 2 ^ n_bits f \<noteq> 0 then 1 else 0)))"
proof -
  let ?n = "n_bits f"
  have e: "x - x mod 2 ^ ?n = 2 ^ ?n * (x div 2 ^ ?n)"
    by (rule mod_pow_split)
  consider "x < 0" | "0 \<le> x" "x mod 2 ^ ?n = 0" | "0 \<le> x" "x mod 2 ^ ?n \<noteq> 0"
    by linarith
  then show ?thesis
  proof cases
    case 1
    then show ?thesis
      by (simp add: math_ceil_eq [OF f r x] e)
  next
    case 2
    then show ?thesis
      using e by (simp add: math_ceil_eq [OF f r x])
  next
    case 3
    have "x - x mod 2 ^ ?n + 2 ^ ?n = 2 ^ ?n * (x div 2 ^ ?n + 1)"
      by (simp add: e algebra_simps)
    then show ?thesis
      using 3 y by (simp add: math_ceil_eq [OF f r x] conv_SInt_id)
  qed
qed

theorem math_ceil_spec_witness:
  "math_ceil \<lparr>m_bits = 7, n_bits = 8, storage_bits = 16\<rparr> (-384) = Some (-512) \<and>
   math_ceil \<lparr>m_bits = 7, n_bits = 8, storage_bits = 16\<rparr> 384 = Some 512"
  using math_ceil_spec [OF valid_math_Q7_8, of "-384"] math_ceil_spec [OF valid_math_Q7_8, of 384]
  by (simp add: in_range_SInt)

text \<open>
  C13: on non-negative values (where \<open>x + HALF\<close> does not overflow) \<open>round\<close> returns a
  multiple of \<open>ONE\<close> within half a unit of \<open>x\<close>, ties rounded up.
\<close>

theorem math_round_nonneg:
  assumes f: "valid_math f" and r: "n_bits f + 2 \<le> storage_bits f" and x: "qval f x"
    and n: "0 < n_bits f" and p: "0 \<le> x" and v: "qval f (x + 2 ^ (n_bits f - 1))"
  shows "\<exists>y. math_round f x = Some y \<and> y mod 2 ^ n_bits f = 0 \<and>
             x - 2 ^ (n_bits f - 1) < y \<and> y \<le> x + 2 ^ (n_bits f - 1)"
proof -
  let ?n = "n_bits f" and ?v = "x + 2 ^ (n_bits f - 1)"
  have y: "qval f (?v - ?v mod 2 ^ ?n)"
    using v r by (intro mask_down_in_range) simp_all
  have h: "(2::int) ^ ?n = 2 * 2 ^ (?n - 1)"
    using n by (simp flip: power_Suc)
  have "?v mod 2 ^ ?n < 2 ^ ?n" "0 \<le> ?v mod 2 ^ ?n"
    by simp_all
  then have "x - 2 ^ (?n - 1) < ?v - ?v mod 2 ^ ?n" "?v - ?v mod 2 ^ ?n \<le> ?v"
    using h by linarith+
  moreover have "(?v - ?v mod 2 ^ ?n) mod 2 ^ ?n = 0"
    by (simp add: mod_pow_split)
  moreover have "math_round f x = Some (?v - ?v mod 2 ^ ?n)"
    using n p v y by (simp add: math_round_eq [OF f r x] Let_def conv_SInt_id)
  ultimately show ?thesis
    by (intro exI [of _ "?v - ?v mod 2 ^ ?n"] conjI) simp_all
qed

theorem math_round_nonneg_witness:
  "math_round \<lparr>m_bits = 7, n_bits = 8, storage_bits = 16\<rparr> 384 = Some 512 \<and>
   (512::int) mod 2 ^ 8 = 0 \<and> 384 - 2 ^ 7 < (512::int) \<and> (512::int) \<le> 384 + 2 ^ 7"
proof -
  obtain y where "math_round \<lparr>m_bits = 7, n_bits = 8, storage_bits = 16\<rparr> 384 = Some y"
    using math_round_nonneg [OF valid_math_Q7_8, of 384] by (auto simp: in_range_SInt)
  moreover have "math_round \<lparr>m_bits = 7, n_bits = 8, storage_bits = 16\<rparr> 384 = Some 512"
    using math_round_eq [OF valid_math_Q7_8, of 384] by (simp add: in_range_SInt conv_SInt_id)
  ultimately show ?thesis
    by simp
qed

text \<open>
  C14: \<open>round\<close> moves every negative integral value down by one: \<open>round(-1.0) = -2.0\<close>, so
  \<open>round\<close> is not idempotent.
\<close>

theorem math_round_neg_integer:
  assumes f: "valid_math f" and r: "n_bits f + 2 \<le> storage_bits f" and n: "0 < n_bits f"
    and x: "x < 0" "x mod 2 ^ n_bits f = 0" and v: "qval f (x - 2 ^ n_bits f)"
  shows "math_round f x = Some (x - 2 ^ n_bits f)"
proof -
  let ?n = "n_bits f" and ?h = "(2::int) ^ (n_bits f - 1)"
  have q: "qval f x"
  proof -
    have "(0::int) < 2 ^ ?n"
      by simp
    then show ?thesis
      using v x(1) unfolding in_range_SInt by (intro conjI) linarith+
  qed
  have h: "(2::int) ^ ?n = 2 * ?h"
    using n by (simp flip: power_Suc)
  have hv: "qval f (x - ?h)"
  proof -
    have "0 < ?h"
      by simp
    then show ?thesis
      using v x(1) h unfolding in_range_SInt by (intro conjI) linarith+
  qed
  have "(x - ?h) mod 2 ^ ?n = ?h"
  proof -
    obtain k where k: "x = 2 ^ ?n * k"
      using x(2) by (auto elim: dvdE simp: mod_eq_0_iff_dvd)
    have "x - ?h = ?h + 2 ^ ?n * (k - 1)"
      using k h by (simp add: algebra_simps)
    moreover have "?h < 2 ^ ?n"
      using h by simp
    ultimately show ?thesis
      by (simp add: mod_pos_pos_trivial)
  qed
  then have e: "x - ?h - (x - ?h) mod 2 ^ ?n = x - 2 ^ ?n"
    using h by simp
  have "math_round f x = Some (conv (qty f) (x - ?h - (x - ?h) mod 2 ^ ?n))"
    using x hv n by (simp add: math_round_eq [OF f r q] Let_def)
  then show ?thesis
    unfolding e using conv_SInt_id [OF v] by simp
qed

theorem math_round_neg_integer_witness:
  "math_round \<lparr>m_bits = 7, n_bits = 8, storage_bits = 16\<rparr> (-256) = Some (-512)"
  using math_round_neg_integer [OF valid_math_Q7_8, of "-256"] by (simp add: in_range_SInt)

text \<open>
  C15: \<open>trunc\<close> clears the fractional bits, which rounds towards minus infinity: on a
  negative value with a fractional part it is one \<open>ONE\<close> below truncation towards zero.
\<close>

theorem math_trunc_is_floor:
  assumes f: "valid_math f" and r: "n_bits f + 2 \<le> storage_bits f" and x: "qval f x"
  shows "math_trunc f x = Some (2 ^ n_bits f * (x div 2 ^ n_bits f)) \<and>
    (x < 0 \<and> x mod 2 ^ n_bits f \<noteq> 0 \<longrightarrow>
       2 ^ n_bits f * (x div 2 ^ n_bits f) = 2 ^ n_bits f * (x sdiv 2 ^ n_bits f) - 2 ^ n_bits f)"
proof -
  have "x < 0 \<Longrightarrow> x mod 2 ^ n_bits f \<noteq> 0 \<Longrightarrow> x sdiv 2 ^ n_bits f = x div 2 ^ n_bits f + 1"
    by (simp add: signed_divide_int_def sgn_if abs_if div_minus_right zdiv_zminus1_eq_if)
  then have "x < 0 \<and> x mod 2 ^ n_bits f \<noteq> 0 \<longrightarrow>
       2 ^ n_bits f * (x div 2 ^ n_bits f) = 2 ^ n_bits f * (x sdiv 2 ^ n_bits f) - 2 ^ n_bits f"
    by (simp add: algebra_simps)
  then show ?thesis
    by (simp add: math_trunc_eq [OF f r x] mod_pow_split algebra_simps)
qed

theorem math_trunc_is_floor_witness:
  "math_trunc \<lparr>m_bits = 7, n_bits = 8, storage_bits = 16\<rparr> (-384) = Some (-512)"
  using math_trunc_is_floor [OF valid_math_Q7_8, of "-384"] by (simp add: in_range_SInt)

text \<open>
  C16: \<open>floor\<close>, \<open>ceil\<close> and \<open>trunc\<close> are idempotent: applied to their own result they
  return it unchanged.
\<close>

theorem math_rounding_idempotent:
  assumes f: "valid_math f" and r: "n_bits f + 2 \<le> storage_bits f" and x: "qval f x"
  shows "(\<forall>y. math_floor f x = Some y \<longrightarrow> math_floor f y = Some y) \<and>
         (\<forall>y. math_ceil f x = Some y \<longrightarrow> math_ceil f y = Some y) \<and>
         (\<forall>y. math_trunc f x = Some y \<longrightarrow> math_trunc f y = Some y)"
proof (intro conjI allI impI)
  fix y
  assume "math_floor f x = Some y"
  then show "math_floor f y = Some y"
    using math_floor_result [OF f r x] math_integral_fixed(1) [OF f r] by blast
next
  fix y
  assume "math_ceil f x = Some y"
  then show "math_ceil f y = Some y"
    using math_ceil_result [OF f r x] math_integral_fixed(2) [OF f r] by blast
next
  fix y
  assume y: "math_trunc f x = Some y"
  have e: "y = x - x mod 2 ^ n_bits f"
    using y by (simp add: math_trunc_eq [OF f r x])
  show "math_trunc f y = Some y"
  proof (rule math_integral_fixed(3) [OF f r])
    show "qval f y"
      unfolding e using x r by (intro mask_down_in_range) simp_all
    show "y mod 2 ^ n_bits f = 0"
      unfolding e by (simp add: mod_pow_split)
  qed
qed

theorem math_rounding_idempotent_witness:
  "math_floor \<lparr>m_bits = 7, n_bits = 8, storage_bits = 16\<rparr> (-768) = Some (-768) \<and>
   math_ceil \<lparr>m_bits = 7, n_bits = 8, storage_bits = 16\<rparr> 512 = Some 512 \<and>
   math_trunc \<lparr>m_bits = 7, n_bits = 8, storage_bits = 16\<rparr> (-512) = Some (-512)"
proof -
  let ?f = "\<lparr>m_bits = 7, n_bits = 8, storage_bits = 16\<rparr>"
  have q: "qval ?f (-384)" "qval ?f 384" "n_bits ?f + 2 \<le> storage_bits ?f"
    by (simp_all add: in_range_SInt)
  have a1: "math_floor ?f (-384) = Some (-768)"
    using math_floor_eq [OF valid_math_Q7_8 q(3) q(1)] by (simp add: in_range_SInt conv.simps)
  have a2: "math_ceil ?f 384 = Some 512"
    using math_ceil_eq [OF valid_math_Q7_8 q(3) q(2)] by (simp add: in_range_SInt conv.simps)
  have a3: "math_trunc ?f (-384) = Some (-512)"
    using math_trunc_eq [OF valid_math_Q7_8 q(3) q(1)] by simp
  show ?thesis
    using math_rounding_idempotent [OF valid_math_Q7_8 q(3) q(1)]
      math_rounding_idempotent [OF valid_math_Q7_8 q(3) q(2)] a1 a2 a3 by blast
qed

text \<open>
  C17: \<open>abs\<close> of the smallest storage value wraps back to that value for 8- and 16-bit
  formats and is undefined (signed overflow of \<open>-x\<close>) for 32- and 64-bit formats.
\<close>

theorem math_abs_min:
  assumes f: "valid_math f"
  shows "math_abs f (- (2 ^ (storage_bits f - 1))) =
    (if storage_bits f < 32 then Some (- (2 ^ (storage_bits f - 1))) else None)"
proof -
  have w: "0 < storage_bits f"
    using valid_math_bits [OF f] by simp
  have "qval f (- (2 ^ (storage_bits f - 1)))" "\<not> qval f (2 ^ (storage_bits f - 1))"
    by (simp_all add: in_range_SInt)
  then show ?thesis
    using conv_SInt_half [OF w] by (simp add: math_abs_eq [OF f])
qed

theorem math_abs_min_witness:
  "math_abs \<lparr>m_bits = 7, n_bits = 8, storage_bits = 16\<rparr> (-32768) = Some (-32768) \<and>
   math_abs \<lparr>m_bits = 15, n_bits = 16, storage_bits = 32\<rparr> (-2147483648) = None"
  using math_abs_min [OF valid_math_Q7_8] math_abs_min [OF valid_math_Q15_16] by simp

text \<open>
  C18: for \<open>lo \<le> hi\<close>, \<open>clamp(x, lo, hi)\<close> lies in \<open>[lo, hi]\<close> and is \<open>x\<close> when \<open>x\<close> does.
\<close>

theorem math_clamp_bounds:
  assumes "qval f x" "qval f lo" "qval f hi" "lo \<le> hi"
  shows "lo \<le> math_clamp f x lo hi \<and> math_clamp f x lo hi \<le> hi \<and>
         (lo \<le> x \<and> x \<le> hi \<longrightarrow> math_clamp f x lo hi = x)"
proof -
  have "qval f (max x lo)"
    using assms by (simp add: max_def)
  then show ?thesis
    using assms by (simp add: math_clamp_def math_min_max_eq)
qed

theorem math_clamp_bounds_witness:
  "math_clamp \<lparr>m_bits = 7, n_bits = 8, storage_bits = 16\<rparr> 1000 (-256) 256 = 256"
  using math_clamp_bounds [of "\<lparr>m_bits = 7, n_bits = 8, storage_bits = 16\<rparr>" 1000 "-256" 256]
  by (simp add: in_range_SInt math_clamp_def math_min_max_eq)

text \<open>
  C19: the macro \<open>PI\<close> has undefined behaviour (an out-of-range \<open>double\<close> conversion)
  exactly when the storage type has at most \<open>n + 2\<close> bits, and is otherwise the truncation of
  \<open>\<pi> * 2^n\<close>.
\<close>

theorem math_PI_fits:
  assumes f: "valid_math f"
  shows "(math_PI f = None \<longleftrightarrow> storage_bits f \<le> n_bits f + 2) \<and>
    (n_bits f + 2 < storage_bits f \<longrightarrow> math_PI f = Some (floor (pi_dbl * 2 ^ n_bits f)))"
proof -
  have "0 < storage_bits f"
    using valid_math_bits [OF f] by simp
  then have "n_bits f + 2 \<le> storage_bits f - 1 \<longleftrightarrow> n_bits f + 2 < storage_bits f"
    by arith
  then have "floor (pi_dbl * 2 ^ n_bits f) < 2 ^ (storage_bits f - 1) \<longleftrightarrow> n_bits f + 2 < storage_bits f"
    by (simp only: pi_floor_less_pow)
  then show ?thesis
    by (simp add: math_PI_eq [OF f])
qed

theorem math_PI_fits_witness:
  "math_PI \<lparr>m_bits = 0, n_bits = 7, storage_bits = 8\<rparr> = None \<and>
   math_PI \<lparr>m_bits = 7, n_bits = 8, storage_bits = 16\<rparr> = Some 804"
proof -
  have v: "valid_math \<lparr>m_bits = 0, n_bits = 7, storage_bits = 8\<rparr>"
    by (simp add: valid_math_def math_format_def total_bits_def)
  have "floor (pi_dbl * 2 ^ 8) = 804"
    by (simp add: pi_dbl_def floor_eq_iff)
  then show ?thesis
    using math_PI_fits [OF v] math_PI_fits [OF valid_math_Q7_8] by simp
qed

lemma math_rounding_q0_eq:
  assumes f: "valid_math f" and w: "32 \<le> storage_bits f" and n: "n_bits f + 1 = storage_bits f"
  shows "math_floor f x = None \<and> math_ceil f x = None \<and> math_trunc f x = None \<and>
         math_round f x = None"
proof -
  let ?w = "storage_bits f"
  have w0: "0 < ?w"
    using w by simp
  have "n_bits f = ?w - 1"
    using n by simp
  then have one: "math_ONE f = Some (- (2 ^ (?w - 1)))"
    using math_ONE_eq [OF f] conv_SInt_half [OF w0] by simp
  have r: "qval f (- (2 ^ (?w - 1)))" "\<not> qval f (- (2 ^ (?w - 1)) - 1)"
    by (simp_all add: in_range_SInt)
  have m: "max 32 ?w = ?w"
    using w by simp
  have sub: "c_sub (qv f (- (2 ^ (?w - 1)))) (ci 1) = None"
    using r m by (simp add: c_sub_def c_binop_SInt c_result_SInt in_range_int_const max32_simps)
  show ?thesis
    using one sub by (simp add: math_floor_def math_ceil_def math_trunc_def math_round_def
        split: Option.bind_splits)
qed

text \<open>
  C20: the rounding functions are undefined on the degenerate formats of the list. For the
  formats with no integer bits and 32- or 64-bit storage (Q0.31, Q0.63) \<open>ONE\<close> is the
  minimum, \<open>ONE - 1\<close> overflows, and \<open>floor\<close>, \<open>ceil\<close>, \<open>trunc\<close>, \<open>round\<close> are undefined
  on every input; for formats with no fractional bits (Q31.0) \<open>HALF\<close> shifts by \<open>-1\<close>, so
  \<open>HALF\<close> and \<open>round\<close> are undefined.
\<close>

theorem math_rounding_degenerate:
  assumes f: "valid_math f"
  shows "(32 \<le> storage_bits f \<and> n_bits f + 1 = storage_bits f \<longrightarrow>
           math_floor f x = None \<and> math_ceil f x = None \<and> math_trunc f x = None \<and>
           math_round f x = None) \<and>
         (n_bits f = 0 \<longrightarrow> math_HALF f = None \<and> math_round f x = None)"
  using math_rounding_q0_eq [OF f] by (simp add: math_round_def math_HALF_eq [OF f])

theorem math_rounding_degenerate_witness:
  "math_floor \<lparr>m_bits = 0, n_bits = 31, storage_bits = 32\<rparr> 0 = None \<and>
   math_round \<lparr>m_bits = 0, n_bits = 31, storage_bits = 32\<rparr> 0 = None \<and>
   math_round \<lparr>m_bits = 31, n_bits = 0, storage_bits = 32\<rparr> 5 = None"
  using math_rounding_degenerate [OF valid_math_Q0_31, of 0] math_rounding_degenerate [OF valid_math_Q31_0, of 5]
  by simp

end
