(* ===== verification/Cordic.thy ===== *)
theory Cordic
  imports MathBasic
begin

text \<open>
  The CORDIC part of \<open>q<m>_<n>_math.c\<close> (\<open>src/scripts/generate_math_headers.py\<close>):
  the constant tables computed in Python by \<open>generate_cordic_tables\<close> (lines 121--134), the
  table and gain macros printed into the C file (lines 159--165), the rotation and vectoring
  loops \<open>cordic_rotate\<close> and \<open>cordic_vector\<close> (lines 167--217), and \<open>sin\<close>, \<open>cos\<close> with
  their range-reduction loops (lines 219--251). Python's floats are their exact binary64 values;
  \<open>math.atan(2.0 ** -i)\<close> is given by its binary64 result for \<open>i < 32\<close>, the only indices
  the loop of line 129 reaches.
\<close>

definition k_dbl :: real where
  "k_dbl = 85463252869551 / 2 ^ 47"

text \<open>\<open>math.atan(2.0 ** -i)\<close> for \<open>i = 0..31\<close>, as \<open>(mantissa, e)\<close> with value \<open>mantissa / 2^e\<close>.\<close>

definition atan_bits :: "(int \<times> nat) list" where
  "atan_bits =
    [(884279719003555, 50),
     (8352332796509007, 54),
     (8826286527774941, 55),
     (4480360856819639, 55),
     (4497749271019253, 56),
     (9004268940523045, 58),
     (9006466354344603, 59),
     (9007016009513623, 60),
     (9007153442175927, 61),
     (2251796950380271, 60),
     (2251799097857775, 61),
     (2251799634728303, 62),
     (2251799768946007, 63),
     (4503599605000875, 65),
     (9007199243556181, 67),
     (9007199251944789, 68),
     (9007199254041941, 69),
     (9007199254566229, 70),
     (9007199254697301, 71),
     (9007199254730069, 72),
     (9007199254738261, 73),
     (9007199254740309, 74),
     (9007199254740821, 75),
     (9007199254740949, 76),
     (9007199254740981, 77),
     (9007199254740989, 78),
     (9007199254740991, 79),
     (1, 27),
     (1, 28),
     (1, 29),
     (1, 30),
     (1, 31)]"

definition atan_dbl :: "nat \<Rightarrow> real" where
  "atan_dbl i = real_of_int (fst (atan_bits ! i)) / 2 ^ snd (atan_bits ! i)"

text \<open>\<open>generate_cordic_tables(n)\<close>: \<open>k_fixed = int(k * (1 << n))\<close> and
  \<open>[int(math.atan(2.0 ** -i) * (1 << n)) for i in range(min(n, 32))]\<close>; \<open>int()\<close>
  truncates toward zero.\<close>

definition cordic_tables :: "nat \<Rightarrow> int \<times> int list" where
  "cordic_tables n =
     (real_trunc (k_dbl * 2 ^ n), map (\<lambda>i. real_trunc (atan_dbl i * 2 ^ n)) [0..<min n 32])"

text \<open>\<open>#define CORDIC_ITERATIONS min(n, 16)\<close>, \<open>#define CORDIC_K ((T)k_fixed)\<close> and
  \<open>static const T cordic_atan_table[CORDIC_ITERATIONS] = {...}\<close>: the array has
  \<open>CORDIC_ITERATIONS\<close> elements, each initializer converted to \<open>T\<close>; GCC drops the excess
  initializers (with a warning) when Python printed more.\<close>

definition cordic_iterations :: "nat \<Rightarrow> nat" where
  "cordic_iterations n = min n 16"

definition cordic_K :: "qfmt \<Rightarrow> int" where
  "cordic_K f = conv (qty f) (fst (cordic_tables (n_bits f)))"

definition cordic_atan_table :: "qfmt \<Rightarrow> int list" where
  "cordic_atan_table f =
     map (conv (qty f)) (take (cordic_iterations (n_bits f)) (snd (cordic_tables (n_bits f))))"

text \<open>One iteration of \<open>cordic_rotate\<close> (lines 173--187): the direction follows the sign of
  \<open>z\<close>; each right-hand side is computed in the promoted type and assigned to \<open>T\<close>.\<close>

definition rotate_step :: "qfmt \<Rightarrow> int list \<Rightarrow> nat \<Rightarrow> int \<times> int \<times> int \<Rightarrow> (int \<times> int \<times> int) option" where
  "rotate_step f tbl i s = (case s of (x, y, z) \<Rightarrow>
     if c_le (ci 0) (qv f z) then do {
       xn \<leftarrow> do { a \<leftarrow> c_shr (qv f y) (ci (int i)); c_sub (qv f x) a };
       yn \<leftarrow> do { b \<leftarrow> c_shr (qv f x) (ci (int i)); c_add (qv f y) b };
       zn \<leftarrow> c_sub (qv f z) (qv f (tbl ! i));
       Some (snd (c_cast (qty f) xn), snd (c_cast (qty f) yn), snd (c_cast (qty f) zn))
     } else do {
       xn \<leftarrow> do { a \<leftarrow> c_shr (qv f y) (ci (int i)); c_add (qv f x) a };
       yn \<leftarrow> do { b \<leftarrow> c_shr (qv f x) (ci (int i)); c_sub (qv f y) b };
       zn \<leftarrow> c_add (qv f z) (qv f (tbl ! i));
       Some (snd (c_cast (qty f) xn), snd (c_cast (qty f) yn), snd (c_cast (qty f) zn))
     })"

text \<open>One iteration of \<open>cordic_vector\<close> (lines 199--213): the direction follows the sign
  of \<open>y\<close>.\<close>

definition vector_step :: "qfmt \<Rightarrow> int list \<Rightarrow> nat \<Rightarrow> int \<times> int \<times> int \<Rightarrow> (int \<times> int \<times> int) option" where
  "vector_step f tbl i s = (case s of (x, y, z) \<Rightarrow>
     if c_less (qv f y) (ci 0) then do {
       xn \<leftarrow> do { a \<leftarrow> c_shr (qv f y) (ci (int i)); c_sub (qv f x) a };
       yn \<leftarrow> do { b \<leftarrow> c_shr (qv f x) (ci (int i)); c_add (qv f y) b };
       zn \<leftarrow> c_sub (qv f z) (qv f (tbl ! i));
       Some (snd (c_cast (qty f) xn), snd (c_cast (qty f) yn), snd (c_cast (qty f) zn))
     } else do {
       xn \<leftarrow> do { a \<leftarrow> c_shr (qv f y) (ci (int i)); c_add (qv f x) a };
       yn \<leftarrow> do { b \<leftarrow> c_shr (qv f x) (ci (int i)); c_sub (qv f y) b };
       zn \<leftarrow> c_add (qv f z) (qv f (tbl ! i));
       Some (snd (c_cast (qty f) xn), snd (c_cast (qty f) yn), snd (c_cast (qty f) zn))
     })"

text \<open>The loop \<open>for (int i = 0; i < CORDIC_ITERATIONS; i++)\<close>: \<open>for_loop step i k s\<close>
  runs the remaining \<open>k\<close> iterations from index \<open>i\<close>.\<close>

fun for_loop :: "(nat \<Rightarrow> 'a \<Rightarrow> 'a option) \<Rightarrow> nat \<Rightarrow> nat \<Rightarrow> 'a \<Rightarrow> 'a option" where
  "for_loop step i 0 s = Some s"
| "for_loop step i (Suc k) s = do { s' \<leftarrow> step i s; for_loop step (Suc i) k s' }"

text \<open>\<open>cordic_rotate(&x, &y, z)\<close>: starts from \<open>(CORDIC_K, 0, z)\<close> and stores the final
  \<open>x\<close>, \<open>y\<close>; \<open>cordic_vector(x, y)\<close> starts from \<open>(x, y, 0)\<close> and returns the final \<open>z\<close>.\<close>

definition cordic_rotate :: "qfmt \<Rightarrow> int \<Rightarrow> (int \<times> int) option" where
  "cordic_rotate f z =
     map_option (\<lambda>(x, y, _). (x, y))
       (for_loop (rotate_step f (cordic_atan_table f)) 0 (cordic_iterations (n_bits f))
          (cordic_K f, 0, z))"

definition cordic_vector :: "qfmt \<Rightarrow> int \<Rightarrow> int \<Rightarrow> int option" where
  "cordic_vector f x y =
     map_option (\<lambda>(_, _, z). z)
       (for_loop (vector_step f (cordic_atan_table f)) 0 (cordic_iterations (n_bits f)) (x, y, 0))"

text \<open>Range reduction of \<open>sin\<close> and \<open>cos\<close> (lines 221--222 and 239--240):
  \<open>while (angle > PI) angle -= 2 * PI;\<close> and \<open>while (angle < -PI) angle += 2 * PI;\<close>, with
  \<open>PI\<close> the value of the macro. Whether these loops end is a property, so they are partial
  functions: a loop that does not end is \<open>None\<close>.\<close>

partial_function (option) reduce_above :: "qfmt \<Rightarrow> int \<Rightarrow> int \<Rightarrow> int option" where
  "reduce_above f p a =
     (if c_less (qv f p) (qv f a) then do {
        t \<leftarrow> c_mul (ci 2) (qv f p);
        r \<leftarrow> c_sub (qv f a) t;
        reduce_above f p (snd (c_cast (qty f) r))
      }
      else Some a)"

partial_function (option) reduce_below :: "qfmt \<Rightarrow> int \<Rightarrow> int \<Rightarrow> int option" where
  "reduce_below f p a = do {
     np \<leftarrow> c_neg (qv f p);
     if c_less (qv f a) np then do {
       t \<leftarrow> c_mul (ci 2) (qv f p);
       r \<leftarrow> c_add (qv f a) t;
       reduce_below f p (snd (c_cast (qty f) r))
     }
     else Some a
   }"

text \<open>\<open>sin\<close>: reduce, negate a negative angle and remember it, rotate, return \<open>y\<close> (negated
  back). \<open>cos\<close>: reduce, take the magnitude, rotate, return \<open>x\<close>. Every \<open>-v\<close> is computed
  in the promoted type and converted back to \<open>T\<close>.\<close>

definition q_neg :: "qfmt \<Rightarrow> int \<Rightarrow> int option" where
  "q_neg f v = map_option (\<lambda>r. snd (c_cast (qty f) r)) (c_neg (qv f v))"

definition q_sin :: "qfmt \<Rightarrow> int \<Rightarrow> int option" where
  "q_sin f angle = do {
     p \<leftarrow> math_PI f;
     a1 \<leftarrow> reduce_above f p angle;
     a2 \<leftarrow> reduce_below f p a1;
     let negate = c_less (qv f a2) (ci 0);
     a3 \<leftarrow> (if negate then q_neg f a2 else Some a2);
     (x, y) \<leftarrow> cordic_rotate f a3;
     if negate then q_neg f y else Some y
   }"

definition q_cos :: "qfmt \<Rightarrow> int \<Rightarrow> int option" where
  "q_cos f angle = do {
     p \<leftarrow> math_PI f;
     a1 \<leftarrow> reduce_above f p angle;
     a2 \<leftarrow> reduce_below f p a1;
     a3 \<leftarrow> (if c_less (qv f a2) (ci 0) then q_neg f a2 else Some a2);
     (x, y) \<leftarrow> cordic_rotate f a3;
     Some x
   }"

lemmas [c_eval] = k_dbl_def atan_bits_def atan_dbl_def cordic_tables_def cordic_iterations_def
  cordic_K_def cordic_atan_table_def rotate_step_def vector_step_def cordic_rotate_def
  cordic_vector_def q_neg_def q_sin_def q_cos_def

subsection \<open>Evaluation and loop lemmas\<close>

lemma cordic_tables_eq:
  "cordic_tables n =
     ((85463252869551 * 2 ^ n) div 2 ^ 47,
      map (\<lambda>i. (fst (atan_bits ! i) * 2 ^ n) div 2 ^ snd (atan_bits ! i)) [0..<min n 32])"
proof -
  have "\<forall>i < 32. 0 \<le> fst (atan_bits ! i)"
    by (simp add: atan_bits_def less_Suc_eq numeral_eq_Suc nth_Cons split: nat.splits)
  then have "\<And>i. i \<in> set [0..<min n 32] \<Longrightarrow>
      real_trunc (atan_dbl i * 2 ^ n) = (fst (atan_bits ! i) * 2 ^ n) div 2 ^ snd (atan_bits ! i)"
    unfolding atan_dbl_def by (intro real_trunc_scaled) simp
  moreover have "real_trunc (k_dbl * 2 ^ n) = (85463252869551 * 2 ^ n) div 2 ^ 47"
    unfolding k_dbl_def using real_trunc_scaled [of 85463252869551 47 n] by simp
  ultimately show ?thesis
    by (simp add: cordic_tables_def)
qed

lemma qval_conv: "valid_math f \<Longrightarrow> qval f (conv (qty f) v)"
  using valid_math_bits(2) [of f] by (intro conv_in_range) simp

lemma cordic_atan_table_qval:
  assumes f: "valid_math f"
  shows "length (cordic_atan_table f) = cordic_iterations (n_bits f)"
    and "j < cordic_iterations (n_bits f) \<Longrightarrow> qval f (cordic_atan_table f ! j)"
proof -
  show "length (cordic_atan_table f) = cordic_iterations (n_bits f)"
    by (simp add: cordic_atan_table_def cordic_tables_def cordic_iterations_def)
  show "j < cordic_iterations (n_bits f) \<Longrightarrow> qval f (cordic_atan_table f ! j)"
    using qval_conv [OF f]
    by (simp add: cordic_atan_table_def cordic_tables_def cordic_iterations_def)
qed

lemma rotate_step_narrow:
  assumes w: "storage_bits f \<le> 16" and q: "qval f x" "qval f y" "qval f z" "qval f (tbl ! i)"
    and i: "i < 32"
  shows "rotate_step f tbl i (x, y, z) = Some
    (if 0 \<le> z then (conv (qty f) (x - y div 2 ^ i), conv (qty f) (y + x div 2 ^ i), conv (qty f) (z - tbl ! i))
     else (conv (qty f) (x + y div 2 ^ i), conv (qty f) (y - x div 2 ^ i), conv (qty f) (z + tbl ! i)))"
proof -
  let ?w = "storage_bits f"
  have m: "max 32 ?w = 32"
    using w by simp
  have r16: "in_range (SInt 16) v" if "qval f v" for v
    using that w by (rule in_range_SInt_mono)
  have dx: "qval f (x div 2 ^ i)" "qval f (y div 2 ^ i)"
    using q div_pow_in_range by blast+
  have d32: "in_range c_int (x div 2 ^ i)" "in_range c_int (y div 2 ^ i)"
    using dx w by (auto intro: in_range_SInt_mono)
  have sh: "c_shr (qv f v) (ci (int i)) = Some (c_int, v div 2 ^ i)" if "qval f v" for v
    using that i m by (simp add: c_shr_SInt)
  have ops: "c_binop g (qv f u) (c_int, v div 2 ^ i) = Some (c_int, g u (v div 2 ^ i))"
    if "qval f u" "qval f v" "g = (+) \<or> g = (-)" for g u v
    using that w by (intro c_addsub_int16 r16 div_pow_in_range in_range_SInt_mono [of 16 "v div 2 ^ i" 32]) auto
  have opz: "c_binop g (qv f z) (qv f (tbl ! i)) = Some (c_int, g z (tbl ! i))" if "g = (+) \<or> g = (-)" for g
    using that q w by (intro c_addsub_int16 r16) auto
  have le: "c_le (ci 0) (qv f z) \<longleftrightarrow> 0 \<le> z"
    using q by (simp add: c_compare_SInt in_range_int_const)
  show ?thesis
    using q le sh [OF q(1)] sh [OF q(2)] ops [OF q(1) q(2)] ops [OF q(2) q(1)] opz
    by (simp add: rotate_step_def c_add_def c_sub_def c_cast_def)
qed

lemma vector_step_narrow:
  assumes w: "storage_bits f \<le> 16" and q: "qval f x" "qval f y" "qval f z" "qval f (tbl ! i)"
    and i: "i < 32"
  shows "vector_step f tbl i (x, y, z) = Some
    (if y < 0 then (conv (qty f) (x - y div 2 ^ i), conv (qty f) (y + x div 2 ^ i), conv (qty f) (z - tbl ! i))
     else (conv (qty f) (x + y div 2 ^ i), conv (qty f) (y - x div 2 ^ i), conv (qty f) (z + tbl ! i)))"
proof -
  let ?w = "storage_bits f"
  have m: "max 32 ?w = 32"
    using w by simp
  have r16: "in_range (SInt 16) v" if "qval f v" for v
    using that w by (rule in_range_SInt_mono)
  have sh: "c_shr (qv f v) (ci (int i)) = Some (c_int, v div 2 ^ i)" if "qval f v" for v
    using that i m by (simp add: c_shr_SInt)
  have ops: "c_binop g (qv f u) (c_int, v div 2 ^ i) = Some (c_int, g u (v div 2 ^ i))"
    if "qval f u" "qval f v" "g = (+) \<or> g = (-)" for g u v
    using that w by (intro c_addsub_int16 r16 div_pow_in_range in_range_SInt_mono [of 16 "v div 2 ^ i" 32]) auto
  have opz: "c_binop g (qv f z) (qv f (tbl ! i)) = Some (c_int, g z (tbl ! i))" if "g = (+) \<or> g = (-)" for g
    using that q w by (intro c_addsub_int16 r16) auto
  have lt: "c_less (qv f y) (ci 0) \<longleftrightarrow> y < 0"
    using q by (simp add: c_compare_SInt in_range_int_const)
  show ?thesis
    using q lt sh [OF q(1)] sh [OF q(2)] ops [OF q(1) q(2)] ops [OF q(2) q(1)] opz
    by (simp add: vector_step_def c_add_def c_sub_def c_cast_def)
qed

lemma for_loop_numeral:
  "for_loop step i (numeral k) s = do { s' \<leftarrow> step i s; for_loop step (Suc i) (pred_numeral k) s' }"
  by (simp add: numeral_eq_Suc)

lemma for_loop_inv:
  assumes step: "\<And>j s. i \<le> j \<Longrightarrow> j < i + k \<Longrightarrow> P s \<Longrightarrow> \<exists>s'. st j s = Some s' \<and> P s'"
    and s: "P s"
  shows "\<exists>s'. for_loop st i k s = Some s' \<and> P s'"
  using step s
proof (induction k arbitrary: i s)
  case 0
  then show ?case
    by simp
next
  case (Suc k)
  obtain s1 where s1: "st i s1' = Some s1" "P s1" if "s1' = s" for s1'
    using Suc.prems(1) [of i s] Suc.prems(2) by auto
  have "\<exists>s'. for_loop st (Suc i) k s1 = Some s' \<and> P s'"
    using Suc.prems(1) s1(2) by (intro Suc.IH) auto
  then show ?case
    using s1 by simp
qed

lemma rotate_loop_narrow:
  assumes f: "valid_math f" and w: "storage_bits f \<le> 16" and k: "i + k \<le> 32"
    and t: "\<forall>j < i + k. qval f (tbl ! j)" and q: "qval f x" "qval f y" "qval f z"
  shows "\<exists>x' y' z'. for_loop (rotate_step f tbl) i k (x, y, z) = Some (x', y', z') \<and>
           qval f x' \<and> qval f y' \<and> qval f z'"
proof -
  have "\<exists>s'. for_loop (rotate_step f tbl) i k (x, y, z) = Some s' \<and>
      (case s' of (x', y', z') \<Rightarrow> qval f x' \<and> qval f y' \<and> qval f z')"
  proof (rule for_loop_inv)
    fix j s
    assume "i \<le> j" "j < i + k" "case s of (x', y', z') \<Rightarrow> qval f x' \<and> qval f y' \<and> qval f z'"
    then show "\<exists>s'. rotate_step f tbl j s = Some s' \<and>
        (case s' of (x', y', z') \<Rightarrow> qval f x' \<and> qval f y' \<and> qval f z')"
      using k t qval_conv [OF f] by (cases s) (simp add: rotate_step_narrow [OF w])
  qed (use q in simp)
  then show ?thesis
    by auto
qed

lemma vector_loop_narrow:
  assumes f: "valid_math f" and w: "storage_bits f \<le> 16" and q: "qval f x" "qval f y"
  shows "\<exists>z. cordic_vector f x y = Some z \<and> qval f z"
proof -
  let ?k = "cordic_iterations (n_bits f)"
  have k: "?k \<le> 16"
    by (simp add: cordic_iterations_def)
  have "\<exists>s'. for_loop (vector_step f (cordic_atan_table f)) 0 ?k (x, y, 0) = Some s' \<and>
      (case s' of (x', y', z') \<Rightarrow> qval f x' \<and> qval f y' \<and> qval f z')"
  proof (rule for_loop_inv)
    fix j s
    assume "0 \<le> j" "j < 0 + ?k" "case s of (x', y', z') \<Rightarrow> qval f x' \<and> qval f y' \<and> qval f z'"
    then show "\<exists>s'. vector_step f (cordic_atan_table f) j s = Some s' \<and>
        (case s' of (x', y', z') \<Rightarrow> qval f x' \<and> qval f y' \<and> qval f z')"
      using k cordic_atan_table_qval(2) [OF f, of j] qval_conv [OF f]
      by (cases s) (simp add: vector_step_narrow [OF w])
  qed (use q in \<open>simp add: in_range_SInt\<close>)
  then show ?thesis
    by (auto simp: cordic_vector_def)
qed

lemma reduce_above_id:
  assumes "qval f p" "qval f a" "a \<le> p"
  shows "reduce_above f p a = Some a"
  using assms by (subst reduce_above.simps) (simp add: c_compare_SInt)

lemma reduce_below_id:
  assumes "qval f p" "qval f a" "0 \<le> p" "- p \<le> a"
  shows "reduce_below f p a = Some a"
proof -
  have "in_range (SInt (max 32 (storage_bits f))) (- p)"
    using assms(1,3) in_range_max(3) [of "storage_bits f" p] unfolding in_range_SInt by auto
  then show ?thesis
    using assms by (subst reduce_below.simps) (simp add: c_neg_SInt c_result_SInt c_compare_SInt)
qed

lemma reduce_above_eq:
  assumes p: "qval f p" "0 < p" "in_range (SInt (max 32 (storage_bits f))) (2 * p)" and a: "qval f a"
  shows "reduce_above f p a = Some (if p < a then p - (p - a) mod (2 * p) else a)"
  using a
proof (induction "nat (a - p)" arbitrary: a rule: less_induct)
  case less
  show ?case
  proof (cases "p < a")
    case False
    then show ?thesis
      using reduce_above_id [OF p(1) less.prems] by simp
  next
    case True
    let ?a' = "a - 2 * p" and ?t = "SInt (max 32 (storage_bits f))"
    have q': "qval f ?a'"
      using p(1,2) less.prems True unfolding in_range_SInt by (intro conjI) linarith+
    have r': "in_range ?t ?a'"
      using q' by (rule in_range_max32)
    have two: "in_range c_int 2"
      by (simp add: in_range_SInt)
    have mul: "c_mul (ci 2) (qv f p) = Some (?t, 2 * p)"
      using c_binop_SInt [OF two p(1), of "(*)"] p(3) by (simp add: c_mul_def c_result_SInt max32_simps)
    have sub: "c_sub (qv f a) (?t, 2 * p) = Some (?t, ?a')"
      using c_binop_SInt [OF less.prems p(3), of "(-)"] r' by (simp add: c_sub_def c_result_SInt max32_simps)
    have c: "c_less (qv f p) (qv f a)"
      using True p(1) less.prems by (simp add: c_compare_SInt)
    have step: "reduce_above f p a = reduce_above f p ?a'"
      unfolding reduce_above.simps [of f p a] using c mul sub conv_SInt_id [OF q'] by (simp add: c_cast_def)
    have "nat (?a' - p) < nat (a - p)"
      using True p(2) by simp
    then have ih: "reduce_above f p ?a' = Some (if p < ?a' then p - (p - ?a') mod (2 * p) else ?a')"
      using less.hyps q' by blast
    have "p - ?a' = (p - a) + 2 * p"
      by simp
    then have md: "(p - ?a') mod (2 * p) = (p - a) mod (2 * p)"
      by (simp only: mod_add_self2)
    have lo: "\<not> p < ?a' \<Longrightarrow> p - (p - a) mod (2 * p) = ?a'"
    proof -
      assume "\<not> p < ?a'"
      then have "0 \<le> p - a + 2 * p" "p - a + 2 * p < 2 * p"
        using True by simp_all
      then have "(p - a + 2 * p) mod (2 * p) = p - a + 2 * p"
        by (rule mod_pos_pos_trivial)
      moreover have "(p - a) mod (2 * p) = (p - a + 2 * p) mod (2 * p)"
        by (simp only: mod_add_self2)
      ultimately have "(p - a) mod (2 * p) = p - a + 2 * p"
        by linarith
      then show ?thesis
        by simp
    qed
    show ?thesis
    proof (cases "p < ?a'")
      case True
      then show ?thesis
        using step ih md \<open>p < a\<close> by simp
    next
      case False
      then show ?thesis
        using step ih lo \<open>p < a\<close> by simp
    qed
  qed
qed

lemma reduce_below_eq:
  assumes p: "qval f p" "0 < p" "in_range (SInt (max 32 (storage_bits f))) (2 * p)" and a: "qval f a"
  shows "reduce_below f p a = Some (if a < - p then (a + p) mod (2 * p) - p else a)"
  using a
proof (induction "nat (- p - a)" arbitrary: a rule: less_induct)
  case less
  show ?case
  proof (cases "a < - p")
    case False
    then show ?thesis
      using reduce_below_id [OF p(1) less.prems] p(2) by simp
  next
    case True
    let ?a' = "a + 2 * p" and ?t = "SInt (max 32 (storage_bits f))"
    have q': "qval f ?a'"
      using p(1,2) less.prems True unfolding in_range_SInt by (intro conjI) linarith+
    have r': "in_range ?t ?a'"
      using q' by (rule in_range_max32)
    have two: "in_range c_int 2"
      by (simp add: in_range_SInt)
    have np: "in_range ?t (- p)"
      using in_range_max32 [OF p(1)] p(2) unfolding in_range_SInt by auto
    have neg: "c_neg (qv f p) = Some (?t, - p)"
      using np p(1) by (simp add: c_neg_SInt c_result_SInt)
    have mul: "c_mul (ci 2) (qv f p) = Some (?t, 2 * p)"
      using c_binop_SInt [OF two p(1), of "(*)"] p(3) by (simp add: c_mul_def c_result_SInt max32_simps)
    have add: "c_add (qv f a) (?t, 2 * p) = Some (?t, ?a')"
      using c_binop_SInt [OF less.prems p(3), of "(+)"] r' by (simp add: c_add_def c_result_SInt max32_simps)
    have c: "c_less (qv f a) (?t, - p)"
      using True less.prems np by (simp add: c_compare_SInt)
    have step: "reduce_below f p a = reduce_below f p ?a'"
      unfolding reduce_below.simps [of f p a] using c neg mul add conv_SInt_id [OF q'] by (simp add: c_cast_def)
    have "nat (- p - ?a') < nat (- p - a)"
      using True p(2) by simp
    then have ih: "reduce_below f p ?a' = Some (if ?a' < - p then (?a' + p) mod (2 * p) - p else ?a')"
      using less.hyps q' by blast
    have "?a' + p = (a + p) + 2 * p"
      by simp
    then have md: "(?a' + p) mod (2 * p) = (a + p) mod (2 * p)"
      by (simp only: mod_add_self2)
    have hi: "\<not> ?a' < - p \<Longrightarrow> (a + p) mod (2 * p) - p = ?a'"
    proof -
      assume "\<not> ?a' < - p"
      then have "0 \<le> a + p + 2 * p" "a + p + 2 * p < 2 * p"
        using True by simp_all
      then have "(a + p + 2 * p) mod (2 * p) = a + p + 2 * p"
        by (rule mod_pos_pos_trivial)
      moreover have "(a + p) mod (2 * p) = (a + p + 2 * p) mod (2 * p)"
        by (simp only: mod_add_self2)
      ultimately show ?thesis
        by linarith
    qed
    show ?thesis
    proof (cases "?a' < - p")
      case True
      then show ?thesis
        using step ih md \<open>a < - p\<close> by simp
    next
      case False
      then show ?thesis
        using step ih hi \<open>a < - p\<close> by simp
    qed
  qed
qed

lemma reduce_angle_eq:
  assumes p: "qval f p" "0 < p" "in_range (SInt (max 32 (storage_bits f))) (2 * p)" and a: "qval f a"
  shows "Option.bind (reduce_above f p a) (reduce_below f p) =
    Some (if p < a then p - (p - a) mod (2 * p) else if a < - p then (a + p) mod (2 * p) - p else a)"
proof (cases "p < a")
  case True
  let ?r = "p - (p - a) mod (2 * p)"
  have "0 \<le> (p - a) mod (2 * p)" "(p - a) mod (2 * p) < 2 * p"
    using p(2) by simp_all
  then have r: "- p < ?r" "?r \<le> p"
    by linarith+
  then have "qval f ?r"
    using p(1) unfolding in_range_SInt by (intro conjI) linarith+
  then show ?thesis
    using True r reduce_above_eq [OF p a] reduce_below_eq [OF p, of ?r] by simp
next
  case False
  then show ?thesis
    using reduce_above_eq [OF p a] reduce_below_eq [OF p a] by simp
qed

lemma math_PI_Some:
  assumes f: "valid_math f" and p: "math_PI f = Some p"
  shows "0 < p" and "qval f p"
proof -
  have e: "p = floor (pi_dbl * 2 ^ n_bits f)" and l: "p < 2 ^ (storage_bits f - 1)"
    using p by (simp_all add: math_PI_eq [OF f] split: if_splits)
  have "(3::real) \<le> pi_dbl * 2 ^ n_bits f"
  proof -
    have "(1::real) \<le> 2 ^ n_bits f"
      by simp
    then show ?thesis
      using pi_dbl_bounds(1) by (simp add: order_trans [OF _ mult_mono [of 3 pi_dbl 1]])
  qed
  then have "3 \<le> p"
    unfolding e by (simp add: le_floor_iff)
  then show "0 < p"
    by simp
  show "qval f p"
    using \<open>3 \<le> p\<close> l unfolding in_range_SInt by simp
qed

lemma q_neg_narrow:
  assumes w: "storage_bits f \<le> 16" and v: "qval f v"
  shows "q_neg f v = Some (conv (qty f) (- v))"
proof -
  have "max 32 (storage_bits f) = 32"
    using w by simp
  moreover have "in_range c_int (- v)"
    using in_range_SInt_mono [OF v w] unfolding in_range_SInt by simp
  ultimately show ?thesis
    using v by (simp add: q_neg_def c_neg_SInt c_result_SInt c_cast_def)
qed

lemma Q78_consts:
  "cordic_atan_table \<lparr>m_bits = 7, n_bits = 8, storage_bits = 16\<rparr> = [201, 118, 62, 31, 15, 7, 3, 1]"
  "cordic_K \<lparr>m_bits = 7, n_bits = 8, storage_bits = 16\<rparr> = 155"
  "cordic_iterations 8 = 8"
  "math_PI \<lparr>m_bits = 7, n_bits = 8, storage_bits = 16\<rparr> = Some 804"
proof -
  show "cordic_atan_table \<lparr>m_bits = 7, n_bits = 8, storage_bits = 16\<rparr> = [201, 118, 62, 31, 15, 7, 3, 1]"
    by (simp add: cordic_atan_table_def cordic_tables_eq cordic_iterations_def atan_bits_def conv.simps upt_rec)
  show "cordic_K \<lparr>m_bits = 7, n_bits = 8, storage_bits = 16\<rparr> = 155"
    by (simp add: cordic_K_def cordic_tables_eq conv.simps)
  show "cordic_iterations 8 = 8"
    by (simp add: cordic_iterations_def)
  have "floor (pi_dbl * 2 ^ 8) = 804"
    by (simp add: pi_dbl_def floor_eq_iff)
  then show "math_PI \<lparr>m_bits = 7, n_bits = 8, storage_bits = 16\<rparr> = Some 804"
    by (simp add: math_PI_eq [OF valid_math_Q7_8])
qed

lemma Q78_rotate:
  "cordic_rotate \<lparr>m_bits = 7, n_bits = 8, storage_bits = 16\<rparr> 0 = Some (255, -1)"
  "cordic_rotate \<lparr>m_bits = 7, n_bits = 8, storage_bits = 16\<rparr> 804 = Some (-37, 249)"
  by (simp_all add: cordic_rotate_def Q78_consts for_loop_numeral rotate_step_narrow in_range_SInt
      conv.simps signed_take_bit_mod)

lemma Q78_vector:
  "cordic_vector \<lparr>m_bits = 7, n_bits = 8, storage_bits = 16\<rparr> (-256) 0 = Some 438"
  "cordic_vector \<lparr>m_bits = 7, n_bits = 8, storage_bits = 16\<rparr> (-256) (-256) = Some (-438)"
  by (simp_all add: cordic_vector_def Q78_consts for_loop_numeral vector_step_narrow in_range_SInt
      conv.simps signed_take_bit_mod)

subsection \<open>Properties of the CORDIC code\<close>

text \<open>
  C22: the range-reduction loops of \<open>sin\<close> and \<open>cos\<close> always end, and their result is
  the single modulo reduction of the angle into \<open>[-PI, PI]\<close>: \<open>PI - ((PI - a) mod 2PI)\<close>
  above \<open>PI\<close>, \<open>((a + PI) mod 2PI) - PI\<close> below \<open>-PI\<close>, \<open>a\<close> otherwise (for every format
  where \<open>PI\<close> is defined and \<open>2 * PI\<close> fits the promoted type).
\<close>

theorem sin_range_reduction:
  assumes f: "valid_math f" and p: "math_PI f = Some p"
    and r: "in_range (SInt (max 32 (storage_bits f))) (2 * p)" and a: "qval f a"
  shows "Option.bind (reduce_above f p a) (reduce_below f p) =
    Some (if p < a then p - (p - a) mod (2 * p) else if a < - p then (a + p) mod (2 * p) - p else a)"
  using math_PI_Some [OF f p] r a by (intro reduce_angle_eq)

theorem sin_range_reduction_witness:
  "Option.bind (reduce_above \<lparr>m_bits = 7, n_bits = 8, storage_bits = 16\<rparr> 804 3000)
     (reduce_below \<lparr>m_bits = 7, n_bits = 8, storage_bits = 16\<rparr> 804) = Some (-216)"
  using sin_range_reduction [OF valid_math_Q7_8 Q78_consts(4), of 3000] by (simp add: in_range_SInt)

lemma cordic_rotate_narrow:
  assumes f: "valid_math f" and w: "storage_bits f \<le> 16" and z: "qval f z"
  shows "\<exists>x y. cordic_rotate f z = Some (x, y) \<and> qval f x \<and> qval f y"
proof -
  have "\<exists>x' y' z'. for_loop (rotate_step f (cordic_atan_table f)) 0 (cordic_iterations (n_bits f))
      (cordic_K f, 0, z) = Some (x', y', z') \<and> qval f x' \<and> qval f y' \<and> qval f z'"
  proof (rule rotate_loop_narrow [OF f w])
    show "0 + cordic_iterations (n_bits f) \<le> 32"
      by (simp add: cordic_iterations_def)
    show "\<forall>j < 0 + cordic_iterations (n_bits f). qval f (cordic_atan_table f ! j)"
      using cordic_atan_table_qval(2) [OF f] by simp
    show "qval f (cordic_K f)"
      unfolding cordic_K_def by (rule qval_conv [OF f])
    show "qval f 0" "qval f z"
      using z by (simp_all add: in_range_SInt)
  qed
  then show ?thesis
    by (auto simp: cordic_rotate_def)
qed



lemma q_sin_cos_narrow:
  assumes f: "valid_math f" and w: "storage_bits f \<le> 16" and pi: "n_bits f + 2 < storage_bits f"
    and a: "qval f a"
  shows "(\<exists>s. q_sin f a = Some s \<and> qval f s) \<and> (\<exists>c. q_cos f a = Some c \<and> qval f c)"
proof -
  obtain p where p: "math_PI f = Some p"
    using math_PI_eq [OF f] pi pi_floor_less_pow [of "n_bits f" "storage_bits f - 1"] by auto
  note pp = math_PI_Some [OF f p]
  have p2: "in_range (SInt (max 32 (storage_bits f))) (2 * p)"
  proof -
    have "(2::int) ^ (storage_bits f - 1) \<le> 2 ^ 15"
      using w by (intro power_increasing) simp_all
    then show ?thesis
      using pp w unfolding in_range_SInt by simp
  qed
  define r where "r = (if p < a then p - (p - a) mod (2 * p) else if a < - p then (a + p) mod (2 * p) - p else a)"
  have red: "Option.bind (reduce_above f p a) (reduce_below f p) = Some r"
    unfolding r_def by (rule reduce_angle_eq [OF pp(2) pp(1) p2 a])
  then obtain a1 where a1: "reduce_above f p a = Some a1" "reduce_below f p a1 = Some r"
    by (cases "reduce_above f p a") simp_all
  have m: "0 \<le> (p - a) mod (2 * p)" "(p - a) mod (2 * p) < 2 * p"
      "0 \<le> (a + p) mod (2 * p)" "(a + p) mod (2 * p) < 2 * p"
    using pp(1) by simp_all
  have rr: "- p \<le> r \<and> r \<le> p"
  proof (cases "p < a")
    case True
    then show ?thesis
      unfolding r_def using m by (simp only: True if_True) linarith
  next
    case False
    show ?thesis
    proof (cases "a < - p")
      case True
      then show ?thesis
        unfolding r_def using m by (simp only: False True if_True if_False) linarith
    next
      case False': False
      have "r = a"
        using False False' by (simp add: r_def)
      then show ?thesis
        using False False' by linarith
    qed
  qed
  have qr: "qval f r" "qval f (- r)"
    using rr pp(2) unfolding in_range_SInt by auto
  have neg_r: "q_neg f r = Some (- r)"
    using q_neg_narrow [OF w qr(1)] conv_SInt_id [OF qr(2)] by simp
  have lt: "c_less (qv f r) (ci 0) \<longleftrightarrow> r < 0"
    using qr(1) by (simp add: c_compare_SInt in_range_int_const)
  have arg: "qval f (if r < 0 then - r else r)"
    using qr by simp
  obtain x y where xy: "cordic_rotate f (if r < 0 then - r else r) = Some (x, y)" "qval f x" "qval f y"
    using cordic_rotate_narrow [OF f w arg] by blast
  have "\<exists>s. q_sin f a = Some s \<and> qval f s"
    using p a1 lt neg_r xy q_neg_narrow [OF w xy(3)] qval_conv [OF f]
    by (cases "r < 0") (simp_all add: q_sin_def)
  moreover have "\<exists>c. q_cos f a = Some c \<and> qval f c"
    using p a1 lt neg_r xy by (cases "r < 0") (simp_all add: q_cos_def)
  ultimately show ?thesis
    by blast
qed

lemma sin_cos_Q7_8:
  "q_sin \<lparr>m_bits = 7, n_bits = 8, storage_bits = 16\<rparr> 0 = Some (-1) \<and>
   q_cos \<lparr>m_bits = 7, n_bits = 8, storage_bits = 16\<rparr> 0 = Some 255 \<and>
   q_sin \<lparr>m_bits = 7, n_bits = 8, storage_bits = 16\<rparr> 804 = Some 249 \<and>
   q_cos \<lparr>m_bits = 7, n_bits = 8, storage_bits = 16\<rparr> 804 = Some (-37)"
proof -
  let ?f = "\<lparr>m_bits = 7, n_bits = 8, storage_bits = 16\<rparr>"
  have r: "reduce_above ?f 804 0 = Some 0" "reduce_below ?f 804 0 = Some 0"
      "reduce_above ?f 804 804 = Some 804" "reduce_below ?f 804 804 = Some 804"
    by (simp_all add: reduce_above_id reduce_below_id in_range_SInt)
  have c: "\<not> c_less (qv ?f 0) (ci 0)" "\<not> c_less (qv ?f 804) (ci 0)"
    by (simp_all add: c_compare_SInt in_range_SInt)
  show ?thesis
    using r c by (simp add: q_sin_def q_cos_def Q78_consts Q78_rotate)
qed

end
