(* ===== verification/MathFun.thy ===== *)
theory MathFun
  imports Cordic "HOL-Library.Log_Nat"
begin

text \<open>
  The rest of \<open>q<m>_<n>_math.c\<close> (\<open>src/scripts/generate_math_headers.py\<close>, lines
  253--380): \<open>tan\<close>, \<open>atan2\<close>, \<open>atan\<close>, \<open>sqrt\<close>, \<open>exp2\<close>, \<open>exp\<close>, \<open>log2\<close>, \<open>log\<close>,
  \<open>pow\<close>. The "wide" casts \<open>(base_type)v\<close> of the source cast to the storage type itself
  (\<open>base_type\<close> is the storage type), so the products and shifts they guard are computed in
  the promoted storage type. The bit-scan \<open>while\<close> loops are partial functions; the fixed
  four Newton steps of \<open>sqrt\<close> use the counted loop \<open>for_loop\<close>.
\<close>

text \<open>Conversion of a computed value to the storage type \<open>T\<close> (assignment or return).\<close>

abbreviation to_q :: "'a qfmt_scheme \<Rightarrow> cval \<Rightarrow> int" where
  "to_q f v \<equiv> snd (c_cast (qty f) v)"

definition ln2_dbl :: real where
  "ln2_dbl = 3121656570912977 / 2 ^ 52"

definition log2e_dbl :: real where
  "log2e_dbl = 3248660332204639 / 2 ^ 51"

text \<open>\<open>(T)(d * (1LL << n))\<close>, the form of the constants \<open>ln2\<close>, \<open>log2e\<close>, \<open>inv_ln2\<close>.\<close>

definition scaled_const :: "qfmt \<Rightarrow> real \<Rightarrow> int option" where
  "scaled_const f d = do {
     s \<leftarrow> c_shl (c_long, 1) (ci (int (n_bits f)));
     r \<leftarrow> c_of_double (qty f) (d * real_of_int (snd s));
     Some (snd r)
   }"

text \<open>\<open>tan\<close> (lines 253--261).\<close>

definition q_tan :: "qfmt \<Rightarrow> int \<Rightarrow> int option" where
  "q_tan f angle = do {
     s \<leftarrow> q_sin f angle;
     c \<leftarrow> q_cos f angle;
     if c_eq (qv f c) (ci 0) then math_MAX f
     else do {
       sh \<leftarrow> c_shl (c_cast (qty f) (qv f s)) (ci (int (n_bits f)));
       r \<leftarrow> c_div sh (qv f c);
       Some (to_q f r)
     }
   }"

text \<open>\<open>atan2\<close> (lines 263--278) and \<open>atan(x) = atan2(x, ONE)\<close> (lines 280--282).\<close>

definition q_atan2 :: "qfmt \<Rightarrow> int \<Rightarrow> int \<Rightarrow> int option" where
  "q_atan2 f y x =
     (if c_eq (qv f x) (ci 0) \<and> c_eq (qv f y) (ci 0) then Some 0
      else do {
        r \<leftarrow> cordic_vector f x y;
        if c_less (qv f x) (ci 0) then
          (if c_le (ci 0) (qv f y) then do {
             p \<leftarrow> math_PI f;
             v \<leftarrow> c_sub (qv f p) (qv f r);
             Some (to_q f v)
           } else do {
             p \<leftarrow> math_PI f;
             np \<leftarrow> c_neg (qv f p);
             v \<leftarrow> c_add np (qv f r);
             Some (to_q f v)
           })
        else Some r
      })"

definition q_atan :: "qfmt \<Rightarrow> int \<Rightarrow> int option" where
  "q_atan f x = do { one \<leftarrow> math_ONE f; q_atan2 f x one }"

text \<open>\<open>sqrt\<close> (lines 284--306): the scan \<open>while (val > 0) { val >>= 1; bit <<= 1; }\<close>,
  the initial guess \<open>bit >> 1\<close> raised to \<open>ONE\<close>, then four steps
  \<open>div = ((base_type)x << n) / guess; guess = (guess + div) >> 1;\<close>.\<close>

partial_function (option) sqrt_scan :: "qfmt \<Rightarrow> int \<Rightarrow> int \<Rightarrow> int option" where
  "sqrt_scan f v bt =
     (if c_less (ci 0) (qv f v) then do {
        v' \<leftarrow> c_shr (qv f v) (ci 1);
        b' \<leftarrow> c_shl (qv f bt) (ci 1);
        sqrt_scan f (to_q f v') (to_q f b')
      }
      else Some bt)"

definition sqrt_newton :: "qfmt \<Rightarrow> int \<Rightarrow> nat \<Rightarrow> int \<Rightarrow> int option" where
  "sqrt_newton f x i guess = do {
     sh \<leftarrow> c_shl (c_cast (qty f) (qv f x)) (ci (int (n_bits f)));
     d \<leftarrow> c_div sh (qv f guess);
     s \<leftarrow> c_add (qv f guess) (qv f (to_q f d));
     h \<leftarrow> c_shr s (ci 1);
     Some (to_q f h)
   }"

definition q_sqrt :: "qfmt \<Rightarrow> int \<Rightarrow> int option" where
  "q_sqrt f x =
     (if c_le (qv f x) (ci 0) then Some 0
      else do {
        bt \<leftarrow> sqrt_scan f x 1;
        g \<leftarrow> c_shr (qv f bt) (ci 1);
        one \<leftarrow> math_ONE f;
        let guess = (if c_less (qv f (to_q f g)) (qv f one) then one else to_q f g);
        for_loop (sqrt_newton f x) 0 4 guess
      })"

text \<open>\<open>exp2\<close> (lines 308--329).\<close>

definition q_exp2 :: "qfmt \<Rightarrow> int \<Rightarrow> int option" where
  "q_exp2 f x = do {
     ip \<leftarrow> c_shr (qv f x) (ci (int (n_bits f)));
     let int_part = conv c_int (snd ip);
     one \<leftarrow> math_ONE f;
     fm \<leftarrow> c_sub (qv f one) (ci 1);
     let frac_part = to_q f (c_and (qv f x) fm);
     if c_le (ci (int (m_bits f))) (ci int_part) then math_MAX f
     else do {
       nn \<leftarrow> c_neg (ci (int (n_bits f)));
       if c_less (ci int_part) nn then Some 0
       else do {
         ir \<leftarrow> c_shl (qv f one) (ci int_part);
         let int_result = to_q f ir;
         ln2 \<leftarrow> scaled_const f ln2_dbl;
         t1 \<leftarrow> c_mul (c_cast (qty f) (qv f frac_part)) (qv f ln2);
         t1' \<leftarrow> c_shr t1 (ci (int (n_bits f)));
         let term = to_q f t1';
         r1 \<leftarrow> c_add (qv f one) (qv f term);
         let result = to_q f r1;
         t2 \<leftarrow> c_mul (c_cast (qty f) (qv f term)) (qv f term);
         k \<leftarrow> c_add (ci (int (n_bits f))) (ci 1);
         t2' \<leftarrow> c_shr t2 k;
         r2 \<leftarrow> c_add (qv f result) (qv f (to_q f t2'));
         let result' = to_q f r2;
         p \<leftarrow> c_mul (c_cast (qty f) (qv f int_result)) (qv f result');
         q \<leftarrow> c_shr p (ci (int (n_bits f)));
         Some (to_q f q)
       }
     }
   }"

text \<open>\<open>exp\<close> (lines 331--336): \<open>exp2(((base_type)x * log2e) >> n)\<close>.\<close>

definition q_exp :: "qfmt \<Rightarrow> int \<Rightarrow> int option" where
  "q_exp f x = do {
     l \<leftarrow> scaled_const f log2e_dbl;
     p \<leftarrow> c_mul (c_cast (qty f) (qv f x)) (qv f l);
     s \<leftarrow> c_shr p (ci (int (n_bits f)));
     q_exp2 f (to_q f s)
   }"

text \<open>\<open>log2\<close> (lines 338--366): the scan \<open>while (val > 0) { val >>= 1; bit_pos++; }\<close>,
  normalisation into \<open>[ONE, 2 ONE)\<close>, and \<open>(int_part << n) + ((frac * inv_ln2) >> n)\<close>.\<close>

partial_function (option) log2_scan :: "qfmt \<Rightarrow> int \<Rightarrow> int \<Rightarrow> int option" where
  "log2_scan f v bp =
     (if c_less (ci 0) (qv f v) then do {
        v' \<leftarrow> c_shr (qv f v) (ci 1);
        b' \<leftarrow> c_add (ci bp) (ci 1);
        log2_scan f (to_q f v') (snd b')
      }
      else Some bp)"

definition q_log2 :: "qfmt \<Rightarrow> int \<Rightarrow> int option" where
  "q_log2 f x =
     (if c_le (qv f x) (ci 0) then math_MIN f
      else do {
        bp0 \<leftarrow> log2_scan f x 0;
        bp \<leftarrow> c_sub (ci bp0) (ci 1);
        ip \<leftarrow> c_sub bp (ci (int (n_bits f)));
        norm \<leftarrow> (if c_le (ci (int (n_bits f))) bp then do {
                   k \<leftarrow> c_sub bp (ci (int (n_bits f)));
                   r \<leftarrow> c_shr (qv f x) k;
                   Some (to_q f r)
                 } else do {
                   k \<leftarrow> c_sub (ci (int (n_bits f))) bp;
                   r \<leftarrow> c_shl (qv f x) k;
                   Some (to_q f r)
                 });
        one \<leftarrow> math_ONE f;
        fr \<leftarrow> c_sub (qv f norm) (qv f one);
        inv_ln2 \<leftarrow> scaled_const f log2e_dbl;
        lf \<leftarrow> c_mul (c_cast (qty f) (qv f (to_q f fr))) (qv f inv_ln2);
        lf' \<leftarrow> c_shr lf (ci (int (n_bits f)));
        a \<leftarrow> c_shl ip (ci (int (n_bits f)));
        r \<leftarrow> c_add a (qv f (to_q f lf'));
        Some (to_q f r)
      })"

text \<open>\<open>log\<close> (lines 368--372) and \<open>pow\<close> (lines 374--380).\<close>

definition q_log :: "qfmt \<Rightarrow> int \<Rightarrow> int option" where
  "q_log f x = do {
     l \<leftarrow> q_log2 f x;
     ln2 \<leftarrow> scaled_const f ln2_dbl;
     p \<leftarrow> c_mul (c_cast (qty f) (qv f l)) (qv f ln2);
     s \<leftarrow> c_shr p (ci (int (n_bits f)));
     Some (to_q f s)
   }"

definition q_pow :: "qfmt \<Rightarrow> int \<Rightarrow> int \<Rightarrow> int option" where
  "q_pow f b e =
     (if c_le (qv f b) (ci 0) then Some 0
      else do {
        lb \<leftarrow> q_log2 f b;
        p \<leftarrow> c_mul (c_cast (qty f) (qv f e)) (qv f lb);
        s \<leftarrow> c_shr p (ci (int (n_bits f)));
        q_exp2 f (to_q f s)
      })"

lemmas [c_eval] = ln2_dbl_def log2e_dbl_def scaled_const_def q_tan_def q_atan2_def q_atan_def
  sqrt_newton_def q_sqrt_def q_exp2_def q_exp_def q_log2_def q_log_def q_pow_def

subsection \<open>Evaluation and loop lemmas\<close>

lemma scaled_const_eq:
  assumes f: "valid_math f" and r: "n_bits f + 2 \<le> storage_bits f" and d: "0 \<le> d" "d < 2"
  shows "scaled_const f d = Some (floor (d * 2 ^ n_bits f)) \<and> qval f (floor (d * 2 ^ n_bits f))"
proof -
  let ?n = "n_bits f" and ?w = "storage_bits f"
  have n: "?n \<le> 62"
    using r valid_math_bits(3) [OF f] by simp
  then have "in_range c_long (2 ^ ?n)"
    using pow_in_range(1) [of ?n 64] by simp
  then have c: "conv c_long (2 ^ ?n) = 2 ^ ?n"
    by (rule conv_SInt_id)
  have p: "0 \<le> d * 2 ^ ?n"
    using d by simp
  have "d * 2 ^ ?n < 2 * 2 ^ ?n"
    using d by simp
  also have "(2::real) * 2 ^ ?n \<le> 2 ^ (?w - 1)"
    using r by (simp flip: power_Suc add: power_increasing)
  finally have "floor (d * 2 ^ ?n) < 2 ^ (?w - 1)"
    by (simp add: floor_less_iff)
  moreover have "0 \<le> floor (d * 2 ^ ?n)"
    using p by simp
  ultimately have q: "qval f (floor (d * 2 ^ ?n))"
    unfolding in_range_SInt by (intro conjI) linarith+
  then show ?thesis
    using n c p by (simp add: scaled_const_def shl_long_one c_of_double_def real_trunc_def)
qed

lemma ln2_log2e_bounds: "0 \<le> ln2_dbl" "ln2_dbl < 2" "0 \<le> log2e_dbl" "log2e_dbl < 2"
  by (simp_all add: ln2_dbl_def log2e_dbl_def)

lemma shr1_qval:
  assumes "valid_math f" "qval f v"
  shows "c_shr (qv f v) (ci 1) = Some (SInt (max 32 (storage_bits f)), v div 2)"
    and "to_q f (SInt (max 32 (storage_bits f)), v div 2) = v div 2"
proof -
  show "c_shr (qv f v) (ci 1) = Some (SInt (max 32 (storage_bits f)), v div 2)"
    using assms(2) by (simp add: c_shr_SInt)
  have "qval f (v div 2 ^ 1)"
    using assms(2) by (rule div_pow_in_range)
  then show "to_q f (SInt (max 32 (storage_bits f)), v div 2) = v div 2"
    by (simp add: c_cast_def conv_SInt_id)
qed

lemma log2_scan_eq:
  assumes f: "valid_math f" and v: "qval f v" and k: "0 \<le> k" "k + bitlen v \<le> 64"
  shows "log2_scan f v k = Some (k + bitlen v)"
  using v k
proof (induction "nat v" arbitrary: v k rule: less_induct)
  case less
  show ?case
  proof (cases "0 < v")
    case False
    then have "\<not> c_less (ci 0) (qv f v)"
      using less.prems(1) by (simp add: c_compare_SInt in_range_int_const)
    then show ?thesis
      using False by (simp add: log2_scan.simps [of f v k] bitlen_eq_zero_iff)
  next
    case True
    have b: "bitlen v = bitlen (v div 2) + 1"
      using True by (subst compute_bitlen) simp
    have q: "qval f (v div 2)"
      using div_pow_in_range [OF less.prems(1), of 1] by simp
    have c: "c_less (ci 0) (qv f v)"
      using less.prems(1) True by (simp add: c_compare_SInt in_range_int_const)
    have ki: "in_range c_int k" "in_range c_int (k + 1)"
      using less.prems(2,3) bitlen_nonneg [of v] unfolding in_range_SInt by simp_all
    have add: "c_add (ci k) (ci 1) = Some (c_int, k + 1)"
      using ki by (simp add: c_add_def c_binop_SInt c_result_SInt in_range_int_const)
    have "nat (v div 2) < nat v"
      using True by simp
    then have ih: "log2_scan f (v div 2) (k + 1) = Some (k + 1 + bitlen (v div 2))"
      using less.hyps q less.prems(2,3) b by simp
    show ?thesis
      using c add ih b shr1_qval [OF f less.prems(1)] by (simp add: log2_scan.simps [of f v k])
  qed
qed

lemma sqrt_scan_eq:
  assumes f: "valid_math f" and v: "qval f v" and b: "qval f b"
  shows "sqrt_scan f v b = Some (conv (qty f) (b * 2 ^ nat (bitlen v)))"
  using v b
proof (induction "nat v" arbitrary: v b rule: less_induct)
  case less
  have w: "0 < storage_bits f" "storage_bits f \<le> max 32 (storage_bits f)"
    using valid_math_bits [OF f] by simp_all
  show ?case
  proof (cases "0 < v")
    case False
    then have "\<not> c_less (ci 0) (qv f v)"
      using less.prems(1) by (simp add: c_compare_SInt in_range_int_const)
    moreover have "bitlen v = 0"
      using False by (simp add: bitlen_eq_zero_iff)
    ultimately show ?thesis
      using conv_SInt_id [OF less.prems(2)] by (simp add: sqrt_scan.simps [of f v b])
  next
    case True
    have bl: "bitlen v = bitlen (v div 2) + 1"
      using True by (subst compute_bitlen) simp
    have q: "qval f (v div 2)"
      using div_pow_in_range [OF less.prems(1), of 1] by simp
    have c: "c_less (ci 0) (qv f v)"
      using less.prems(1) True by (simp add: c_compare_SInt in_range_int_const)
    have shl: "c_shl (qv f b) (ci 1) = Some (SInt (max 32 (storage_bits f)), conv (SInt (max 32 (storage_bits f))) (b * 2))"
      using less.prems(2) by (simp add: c_shl_SInt)
    have b': "to_q f (SInt (max 32 (storage_bits f)), conv (SInt (max 32 (storage_bits f))) (b * 2)) = conv (qty f) (2 * b)"
      using w by (simp add: c_cast_def conv_SInt_conv_wider mult.commute)
    have qb: "qval f (conv (qty f) (2 * b))"
      using w by (intro conv_in_range) simp
    have "nat (v div 2) < nat v"
      using True by simp
    then have ih: "sqrt_scan f (v div 2) (conv (qty f) (2 * b)) =
        Some (conv (qty f) (conv (qty f) (2 * b) * 2 ^ nat (bitlen (v div 2))))"
      using less.hyps q qb by simp
    have "conv (qty f) (conv (qty f) (2 * b) * 2 ^ nat (bitlen (v div 2))) =
        conv (qty f) (2 * b * 2 ^ nat (bitlen (v div 2)))"
    proof (rule conv_SInt_cong [OF _ w(1)])
      have "conv (qty f) (2 * b) mod 2 ^ storage_bits f = (2 * b) mod 2 ^ storage_bits f"
        using w(1) by (rule conv_SInt_mod_low) simp
      then show "(conv (qty f) (2 * b) * 2 ^ nat (bitlen (v div 2))) mod 2 ^ storage_bits f =
          (2 * b * 2 ^ nat (bitlen (v div 2))) mod 2 ^ storage_bits f"
        by (rule mod_mult_cong) (rule refl)
    qed
    moreover have "2 * b * 2 ^ nat (bitlen (v div 2)) = b * 2 ^ nat (bitlen v)"
      using bl bitlen_nonneg [of "v div 2"] by (simp add: nat_add_distrib)
    ultimately show ?thesis
      using c shl b' ih shr1_qval [OF f less.prems(1)] by (simp add: sqrt_scan.simps [of f v b])
  qed
qed

subsection \<open>Properties of the transcendental functions\<close>

lemma q_tan_narrow:
  assumes f: "valid_math f" and w: "storage_bits f \<le> 16" and pi: "n_bits f + 2 < storage_bits f"
    and a: "qval f a"
  shows "\<exists>t. q_tan f a = Some t \<and> qval f t"
proof -
  let ?n = "n_bits f"
  obtain s c where s: "q_sin f a = Some s" "qval f s" and c: "q_cos f a = Some c" "qval f c"
    using q_sin_cos_narrow [OF f w pi a] by blast
  have P: "max 32 (storage_bits f) = 32"
    using w by simp
  have mx: "math_MAX f = Some (2 ^ (m_bits f + n_bits f) - 1)"
    using math_MAX_eq [OF f] valid_math_bits [OF f] w by (simp add: total_bits_def)
  have "(2::int) ^ (m_bits f + n_bits f) \<le> 2 ^ (storage_bits f - 1)"
    using valid_math_bits(1) [OF f] by (intro power_increasing) simp_all
  moreover have "(0::int) < 2 ^ (m_bits f + n_bits f)"
    by simp
  ultimately have mxq: "qval f (2 ^ (m_bits f + n_bits f) - 1)"
    unfolding in_range_SInt by linarith
  have sb: "\<bar>s\<bar> \<le> 2 ^ 15" "(2::int) ^ ?n \<le> 2 ^ 13"
  proof -
    have "(2::int) ^ (storage_bits f - 1) \<le> 2 ^ 15"
      using w by (intro power_increasing) simp_all
    then show "\<bar>s\<bar> \<le> 2 ^ 15"
      using s(2) unfolding in_range_SInt by linarith
    show "(2::int) ^ ?n \<le> 2 ^ 13"
      using pi w by (intro power_increasing) simp_all
  qed
  have "\<bar>s\<bar> * 2 ^ ?n \<le> 2 ^ 15 * 2 ^ 13"
    using sb by (intro mult_mono) simp_all
  then have hb: "\<bar>s * 2 ^ ?n\<bar> \<le> 2 ^ 15 * 2 ^ 13"
    by (simp add: abs_mult)
  then have sh_in: "in_range c_int (s * 2 ^ ?n)"
    unfolding in_range_SInt by (simp add: abs_le_iff)
  have shl: "c_shl (c_cast (qty f) (qv f s)) (ci (int ?n)) = Some (c_int, s * 2 ^ ?n)"
    using s(2) sh_in pi w P by (simp add: c_cast_def conv_SInt_id c_shl_SInt)
  have dv: "c \<noteq> 0 \<Longrightarrow> c_div (c_int, s * 2 ^ ?n) (qv f c) = Some (c_int, (s * 2 ^ ?n) sdiv c)"
  proof -
    assume "c \<noteq> 0"
    moreover have "\<bar>(s * 2 ^ ?n) sdiv c\<bar> \<le> 2 ^ 15 * 2 ^ 13"
      using sdiv_abs_le hb by (rule order_trans)
    then have "in_range c_int ((s * 2 ^ ?n) sdiv c)"
      unfolding in_range_SInt by (simp add: abs_le_iff)
    ultimately show ?thesis
      using sh_in c(2) P by (simp add: c_div_SInt c_result_SInt max32_simps)
  qed
  have eq: "c_eq (qv f c) (ci 0) \<longleftrightarrow> c = 0"
    using c(2) by (simp add: c_compare_SInt in_range_int_const)
  show ?thesis
    using s c mx mxq shl dv eq qval_conv [OF f] by (cases "c = 0") (simp_all add: q_tan_def c_cast_def)
qed

lemma q_atan2_narrow:
  assumes f: "valid_math f" and w: "storage_bits f \<le> 16" and pi: "n_bits f + 2 < storage_bits f"
    and x: "qval f x" and y: "qval f y"
  shows "\<exists>r. q_atan2 f y x = Some r \<and> qval f r"
proof -
  obtain p where p: "math_PI f = Some p"
    using math_PI_eq [OF f] pi pi_floor_less_pow [of "n_bits f" "storage_bits f - 1"] by auto
  note pp = math_PI_Some [OF f p]
  obtain r where r: "cordic_vector f x y = Some r" "qval f r"
    using vector_loop_narrow [OF f w x y] by blast
  have r16: "in_range (SInt 16) v" if "qval f v" for v
    using that w by (rule in_range_SInt_mono)
  have P: "max 32 (storage_bits f) = 32"
    using w by simp
  have sub: "c_sub (qv f p) (qv f r) = Some (c_int, p - r)"
    using pp(2) r(2) w by (simp add: c_sub_def c_addsub_int16 r16)
  have pn: "in_range (SInt 16) (- p)"
    using r16 [OF pp(2)] pp(1) unfolding in_range_SInt by simp
  have neg: "c_neg (qv f p) = Some (c_int, - p)"
    using pp(2) P pn by (simp add: c_neg_SInt c_result_SInt in_range_SInt_mono [OF pn])
  have add: "c_add (c_int, - p) (qv f r) = Some (c_int, - p + r)"
    using pn r(2) w by (simp add: c_add_def c_addsub_int16 r16 in_range_SInt_mono [OF pn])
  have cmp: "c_less (qv f x) (ci 0) \<longleftrightarrow> x < 0" "c_le (ci 0) (qv f y) \<longleftrightarrow> 0 \<le> y"
      "c_eq (qv f x) (ci 0) \<longleftrightarrow> x = 0" "c_eq (qv f y) (ci 0) \<longleftrightarrow> y = 0"
    using x y by (simp_all add: c_compare_SInt in_range_int_const)
  show ?thesis
    using p r sub neg add cmp qval_conv [OF f]
    by (simp add: q_atan2_def c_cast_def in_range_SInt)
qed

lemma q_log_nonpos:
  assumes f: "valid_math f" and w: "storage_bits f \<le> 16" and r: "n_bits f + 2 \<le> storage_bits f"
    and x: "qval f x" "x \<le> 0"
  shows "q_log f x = Some (conv (qty f)
    ((- (2 ^ (m_bits f + n_bits f)) * floor (ln2_dbl * 2 ^ n_bits f)) div 2 ^ n_bits f))"
proof -
  let ?n = "n_bits f" and ?k = "m_bits f + n_bits f" and ?L = "floor (ln2_dbl * 2 ^ n_bits f)"
  have P: "max 32 (storage_bits f) = 32"
    using w by simp
  have le: "c_le (qv f x) (ci 0)"
    using x by (simp add: c_compare_SInt in_range_int_const)
  have mn: "math_MIN f = Some (- (2 ^ ?k))"
    using math_MIN_eq [OF f] valid_math_bits [OF f] w by (simp add: total_bits_def)
  have kb: "(2::int) ^ ?k \<le> 2 ^ 15"
    using valid_math_bits(1) [OF f] w by (intro power_increasing) simp_all
  have kq: "qval f (- (2 ^ ?k))"
  proof -
    have "(2::int) ^ ?k \<le> 2 ^ (storage_bits f - 1)"
      using valid_math_bits(1) [OF f] by (intro power_increasing) simp_all
    moreover have "(0::int) < 2 ^ (storage_bits f - 1)" "(0::int) < 2 ^ ?k"
      by simp_all
    ultimately show ?thesis
      unfolding in_range_SInt by linarith
  qed
  obtain L where L: "scaled_const f ln2_dbl = Some ?L" "qval f ?L"
    using scaled_const_eq [OF f r ln2_log2e_bounds(1,2)] by blast
  have Lb: "0 \<le> ?L" "?L \<le> 2 ^ 14"
  proof -
    show "0 \<le> ?L"
      using ln2_log2e_bounds(1) by simp
    have "ln2_dbl * 2 ^ ?n \<le> 1 * 2 ^ ?n"
      by (intro mult_right_mono) (simp_all add: ln2_dbl_def)
    moreover have "(2::real) ^ ?n \<le> 2 ^ 14"
      using r w by (intro power_increasing) simp_all
    ultimately have "ln2_dbl * 2 ^ ?n \<le> 2 ^ 14"
      by (simp only: mult_1)
    then show "?L \<le> 2 ^ 14"
      by (simp add: floor_le_iff)
  qed
  have "2 ^ ?k * ?L \<le> 2 ^ 15 * 2 ^ 14"
    using kb Lb by (intro mult_mono) simp_all
  then have "\<bar>- (2 ^ ?k) * ?L\<bar> \<le> 2 ^ 15 * 2 ^ 14"
    using Lb(1) by (simp add: abs_mult)
  then have pr: "in_range c_int (- (2 ^ ?k) * ?L)"
    unfolding in_range_SInt by (simp add: abs_le_iff)
  have mul: "c_mul (c_cast (qty f) (qv f (- (2 ^ ?k)))) (qv f ?L) = Some (c_int, - (2 ^ ?k) * ?L)"
    using kq L(2) pr P by (simp add: c_cast_def conv_SInt_id c_mul_def c_binop_SInt c_result_SInt max32_simps)
  have shr: "c_shr (c_int, - (2 ^ ?k) * ?L) (ci (int ?n)) = Some (c_int, (- (2 ^ ?k) * ?L) div 2 ^ ?n)"
    using pr r w by (simp add: c_shr_SInt)
  show ?thesis
    using le mn L(1) mul shr by (simp add: q_log_def q_log2_def c_cast_def)
qed


text \<open>
  C24: for 8- and 16-bit formats in which \<open>PI\<close> is defined, \<open>sin\<close>, \<open>cos\<close>, \<open>tan\<close>,
  \<open>atan2\<close> and \<open>atan\<close> return a value of the format for every input: the range-reduction
  loops end, the CORDIC loops stay in \<open>int\<close>, \<open>tan\<close> never divides by zero (a zero cosine
  returns \<open>MAX\<close>) and its \<open>s << n\<close> fits \<open>int\<close>, and the quadrant correction of
  \<open>atan2\<close> does not overflow.
\<close>

theorem trig_total:
  assumes f: "valid_math f" and w: "storage_bits f \<le> 16" and pi: "n_bits f + 2 < storage_bits f"
    and a: "qval f a" and x: "qval f x" and y: "qval f y"
  shows "(\<exists>s. q_sin f a = Some s \<and> qval f s) \<and> (\<exists>c. q_cos f a = Some c \<and> qval f c) \<and>
         (\<exists>t. q_tan f a = Some t \<and> qval f t) \<and> (\<exists>r. q_atan2 f y x = Some r \<and> qval f r) \<and>
         (\<exists>r. q_atan f x = Some r \<and> qval f r)"
proof -
  have one: "math_ONE f = Some (2 ^ n_bits f)" "qval f (2 ^ n_bits f)"
    using math_ONE_pow [OF f] pow_in_range(1) [of "n_bits f" "storage_bits f"] pi by simp_all
  show ?thesis
    using q_sin_cos_narrow [OF f w pi a] q_tan_narrow [OF f w pi a] q_atan2_narrow [OF f w pi x y]
      q_atan2_narrow [OF f w pi one(2) x] one(1)
    by (simp add: q_atan_def)
qed

theorem trig_total_witness:
  "(\<exists>t. q_tan \<lparr>m_bits = 7, n_bits = 8, storage_bits = 16\<rparr> 30000 = Some t) \<and>
   (\<exists>r. q_atan \<lparr>m_bits = 7, n_bits = 8, storage_bits = 16\<rparr> (-32768) = Some r)"
  using trig_total [OF valid_math_Q7_8, of 30000 "-32768" 0] by (auto simp: in_range_SInt)


text \<open>
  C26: \<open>log\<close> has no sentinel of its own: for \<open>x \<le> 0\<close> \<open>log2\<close> returns \<open>MIN\<close>, and \<open>log\<close>
  multiplies that by \<open>ln2\<close> and shifts, so for 8- and 16-bit formats \<open>log(x)\<close> is the
  finite value \<open>(MIN * ln2) >> n\<close>: in Q7.8 \<open>log(0) = -22656\<close> (about -88.5), neither
  \<open>MIN\<close> nor any other sentinel.
\<close>

theorem log_nonpos:
  assumes f: "valid_math f" and w: "storage_bits f \<le> 16" and r: "n_bits f + 2 \<le> storage_bits f"
    and x: "qval f x" "x \<le> 0"
  shows "q_log f x = Some (conv (qty f)
      ((- (2 ^ (m_bits f + n_bits f)) * floor (ln2_dbl * 2 ^ n_bits f)) div 2 ^ n_bits f)) \<and>
    q_log2 f x = math_MIN f"
  using q_log_nonpos [OF assms] x by (simp add: q_log2_def c_compare_SInt in_range_int_const)

theorem log_nonpos_witness:
  "q_log \<lparr>m_bits = 7, n_bits = 8, storage_bits = 16\<rparr> 0 = Some (- 22656) \<and>
   math_MIN \<lparr>m_bits = 7, n_bits = 8, storage_bits = 16\<rparr> = Some (- 32768)"
proof -
  have "floor (ln2_dbl * 2 ^ 8) = 177"
    by (simp add: ln2_dbl_def floor_eq_iff)
  moreover have "math_MIN \<lparr>m_bits = 7, n_bits = 8, storage_bits = 16\<rparr> = Some (- 32768)"
    by (simp add: math_MIN_eq [OF valid_math_Q7_8] total_bits_def)
  ultimately show ?thesis
    using log_nonpos [OF valid_math_Q7_8, of 0] by (simp add: in_range_SInt conv.simps)
qed

lemma exp2_negative_eq:
  assumes f: "valid_math f" and r: "n_bits f + 2 \<le> storage_bits f" and x: "qval f x"
    and neg: "x < 0" and lo: "- (int (n_bits f) * 2 ^ n_bits f) \<le> x"
  shows "q_exp2 f x = None"
proof -
  let ?n = "n_bits f" and ?w = "storage_bits f"
  let ?k = "x div 2 ^ ?n"
  have k: "?k < 0" "- int ?n \<le> ?k"
  proof -
    show "?k < 0"
      using neg by (simp add: div_neg_pos_less0)
    have "((- int ?n) * 2 ^ ?n) div 2 ^ ?n \<le> ?k"
      using lo by (intro zdiv_mono1) simp_all
    moreover have "((- int ?n) * 2 ^ ?n) div 2 ^ ?n = - int ?n"
      by (rule nonzero_mult_div_cancel_right) simp
    ultimately show "- int ?n \<le> ?k"
      by simp
  qed
  have n64: "?n < 64" "?n < ?w" "?w \<le> 64" "m_bits f < 64"
    using valid_math_bits [OF f] by simp_all
  have ki: "in_range c_int ?k" "in_range c_int (int ?n)" "in_range c_int (int (m_bits f))"
    "in_range c_int (- int ?n)"
    using k n64 unfolding in_range_SInt by simp_all
  have shr: "c_shr (qv f x) (ci (int ?n)) = Some (SInt (max 32 ?w), ?k)"
    using x n64 by (simp add: c_shr_SInt)
  have neg_n: "c_neg (ci (int ?n)) = Some (c_int, - int ?n)"
    using ki by (simp add: c_neg_SInt c_result_SInt)
  have c1: "\<not> c_le (ci (int (m_bits f))) (ci ?k)" "\<not> c_less (ci ?k) (c_int, - int ?n)"
    using ki k by (simp_all add: c_compare_SInt)
  have shl: "c_shl (qv f (2 ^ ?n)) (ci ?k) = None"
    using pow_in_range(1) [OF r] k by (simp add: c_shl_SInt)
  show ?thesis
    using shr neg_n c1 shl frac_mask_facts(1) [OF f r] ki(1)
    by (simp add: q_exp2_def math_ONE_pow [OF f r] conv_SInt_id)
qed

lemma q_exp_narrow:
  assumes f: "valid_math f" and w: "storage_bits f \<le> 16" and r: "n_bits f + 2 \<le> storage_bits f"
    and x: "qval f x"
  shows "q_exp f x = q_exp2 f (conv (qty f) ((x * floor (log2e_dbl * 2 ^ n_bits f)) div 2 ^ n_bits f))"
proof -
  let ?n = "n_bits f" and ?L = "floor (log2e_dbl * 2 ^ n_bits f)"
  have P: "max 32 (storage_bits f) = 32"
    using w by simp
  obtain L where L: "scaled_const f log2e_dbl = Some ?L" "qval f ?L"
    using scaled_const_eq [OF f r ln2_log2e_bounds(3,4)] by blast
  have b: "\<bar>x\<bar> \<le> 2 ^ 15" "\<bar>?L\<bar> \<le> 2 ^ 15"
  proof -
    have "(2::int) ^ (storage_bits f - 1) \<le> 2 ^ 15"
      using w by (intro power_increasing) simp_all
    then show "\<bar>x\<bar> \<le> 2 ^ 15" "\<bar>?L\<bar> \<le> 2 ^ 15"
      using x L(2) unfolding in_range_SInt by linarith+
  qed
  have "\<bar>x\<bar> * \<bar>?L\<bar> \<le> 2 ^ 15 * 2 ^ 15"
    using b by (intro mult_mono) simp_all
  then have "\<bar>x * ?L\<bar> \<le> 2 ^ 15 * 2 ^ 15"
    by (simp add: abs_mult)
  then have pr: "in_range c_int (x * ?L)"
    unfolding in_range_SInt by (simp add: abs_le_iff)
  have mul: "c_mul (c_cast (qty f) (qv f x)) (qv f ?L) = Some (c_int, x * ?L)"
    using x L(2) pr P by (simp add: c_cast_def conv_SInt_id c_mul_def c_binop_SInt c_result_SInt max32_simps)
  have shr: "c_shr (c_int, x * ?L) (ci (int ?n)) = Some (c_int, (x * ?L) div 2 ^ ?n)"
    using pr r w by (simp add: c_shr_SInt)
  show ?thesis
    using L(1) mul shr by (simp add: q_exp_def c_cast_def)
qed

text \<open>
  C27: \<open>exp2\<close> has undefined behaviour on every negative input whose integer part is at
  least \<open>-n\<close>: it computes \<open>ONE << int_part\<close> with a negative shift count. \<open>exp\<close> inherits
  it: for 8- and 16-bit formats \<open>exp(x)\<close> is undefined whenever \<open>(x * log2e) >> n\<close>,
  converted to the storage type, is such a value (in Q7.8 already \<open>exp(-1.0)\<close>).
\<close>

theorem exp2_negative_undefined:
  assumes f: "valid_math f" and r: "n_bits f + 2 \<le> storage_bits f"
  shows "(qval f x \<and> x < 0 \<and> - (int (n_bits f) * 2 ^ n_bits f) \<le> x \<longrightarrow> q_exp2 f x = None) \<and>
    (storage_bits f \<le> 16 \<and> qval f y \<and>
     conv (qty f) ((y * floor (log2e_dbl * 2 ^ n_bits f)) div 2 ^ n_bits f) < 0 \<and>
     - (int (n_bits f) * 2 ^ n_bits f) \<le> conv (qty f) ((y * floor (log2e_dbl * 2 ^ n_bits f)) div 2 ^ n_bits f)
     \<longrightarrow> q_exp f y = None)"
  using exp2_negative_eq [OF f r] q_exp_narrow [OF f _ r] qval_conv [OF f] by auto

theorem exp2_negative_undefined_witness:
  "q_exp2 \<lparr>m_bits = 7, n_bits = 8, storage_bits = 16\<rparr> (-128) = None \<and>
   q_exp \<lparr>m_bits = 7, n_bits = 8, storage_bits = 16\<rparr> (-256) = None"
proof -
  have "floor (log2e_dbl * 2 ^ 8) = 369"
    by (simp add: log2e_dbl_def floor_eq_iff)
  then show ?thesis
    using exp2_negative_undefined [OF valid_math_Q7_8, of "-128" "-256"]
    by (simp add: in_range_SInt conv.simps)
qed

lemma mul_pow2_in_range:
  assumes "n + k + 2 \<le> w"
  shows "in_range (SInt w) (int k * 2 ^ n)"
proof -
  have "int k < 2 ^ k"
  proof (induction k)
    case (Suc k)
    have "(1::int) \<le> 2 ^ k" by simp
    with Suc show ?case by (simp only: of_nat_Suc power_Suc)
  qed simp
  then have "int k * 2 ^ n < 2 ^ k * 2 ^ n"
    by (intro mult_strict_right_mono) simp_all
  then have "int k * 2 ^ n < 2 ^ (n + k)"
    by (simp add: power_add mult.commute)
  moreover have "(2::int) ^ (n + k) < 2 ^ (w - 1)"
    using assms by (intro power_strict_increasing) simp_all
  moreover have "(0::int) \<le> int k * 2 ^ n" "(0::int) < 2 ^ (w - 1)"
    by simp_all
  ultimately show ?thesis
    unfolding in_range_SInt by linarith
qed

lemma exp2_int:
  assumes f: "valid_math f" and r: "n_bits f + 2 \<le> storage_bits f" and k: "k < m_bits f"
  shows "q_exp2 f (int k * 2 ^ n_bits f) =
    (if 2 * n_bits f + k + 2 \<le> max 32 (storage_bits f) then Some (2 ^ (n_bits f + k)) else None)"
proof -
  let ?n = "n_bits f" and ?w = "storage_bits f" and ?P = "SInt (max 32 (storage_bits f))"
    and ?x = "int k * 2 ^ n_bits f"
  have n64: "?n < 64" "?n < ?w" "?w \<le> 64" "m_bits f < 64" "?n + k + 2 \<le> ?w"
    using valid_math_bits [OF f] k by simp_all
  have x: "qval f ?x" "in_range ?P ?x"
    using mul_pow2_in_range [OF n64(5)] in_range_max32 by blast+
  have z: "qval f 0" "in_range ?P 0" "in_range c_int 0"
    by (simp_all add: in_range_SInt)
  have ki: "in_range c_int (int ?n)" "in_range c_int (int (m_bits f))" "in_range c_int (- int ?n)"
      "in_range c_int (int ?n + 1)" "in_range c_int (int k)"
    using n64 k unfolding in_range_SInt by simp_all
  have one: "qval f (2 ^ ?n)" "in_range ?P (2 ^ ?n)"
    using pow_in_range(1) [OF r] in_range_max32 by blast+
  have ik: "qval f (2 ^ (?n + k))" "in_range ?P (2 ^ (?n + k))"
    using pow_in_range(1) [of "?n + k" ?w] n64(5) in_range_max32 by simp_all
  obtain L where L: "scaled_const f ln2_dbl = Some L" "qval f L"
    using scaled_const_eq [OF f r ln2_log2e_bounds(1,2)] by blast
  have shrx: "c_shr (qv f ?x) (ci (int ?n)) = Some (?P, int k)"
    using x n64 by (simp add: c_shr_SInt)
  have ck: "conv c_int (int k) = int k"
    using ki(5) by (rule conv_SInt_id)
  have neg_n: "c_neg (ci (int ?n)) = Some (c_int, - int ?n)"
    using ki by (simp add: c_neg_SInt c_result_SInt)
  have c1: "\<not> c_le (ci (int (m_bits f))) (ci (int k))" "\<not> c_less (ci (int k)) (c_int, - int ?n)"
    using ki k by (simp_all add: c_compare_SInt)
  have andx: "to_q f (c_and (qv f ?x) (?P, 2 ^ ?n - 1)) = 0"
    using x in_range_max32 [OF pow_in_range(2) [OF r]] z
    by (simp add: c_and_SInt max32_simps c_cast_def and_mask_int conv_SInt_id)
  have shlk: "c_shl (qv f (2 ^ ?n)) (ci (int k)) = Some (?P, 2 ^ (?n + k))"
    using one ik n64 k by (simp add: c_shl_SInt conv_SInt_id power_add)
  have mul0: "c_mul (c_cast (qty f) (qv f 0)) (qv f L) = Some (?P, 0)"
    using z L(2) by (simp add: c_cast_def c_mul_def c_binop_SInt c_result_SInt max32_simps)
  have shrP: "c_shr (?P, 0) (ci (int ?n)) = Some (?P, 0)" "c_shr (?P, 0) (ci (int ?n + 1)) = Some (?P, 0)"
  proof -
    have "int ?n + 1 < int (max 32 ?w)"
      using r by simp
    then show "c_shr (?P, 0) (ci (int ?n)) = Some (?P, 0)" "c_shr (?P, 0) (ci (int ?n + 1)) = Some (?P, 0)"
      using z r by (simp_all add: c_shr_SInt)
  qed
  have add0: "c_add (qv f (2 ^ ?n)) (qv f 0) = Some (?P, 2 ^ ?n)"
    using one z by (simp add: c_add_def c_binop_SInt c_result_SInt max32_simps)
  have k1: "c_add (ci (int ?n)) (ci 1) = Some (c_int, int ?n + 1)"
    using ki by (simp add: c_add_def c_binop_SInt c_result_SInt in_range_int_const)
  have mul00: "c_mul (c_cast (qty f) (qv f 0)) (qv f 0) = Some (?P, 0)"
    using z by (simp add: c_cast_def c_mul_def c_binop_SInt c_result_SInt max32_simps)
  have pp: "(2::int) ^ (?n + k) * 2 ^ ?n = 2 ^ (2 * ?n + k)"
    by (simp flip: power_add)
  have fit: "in_range ?P (2 ^ (2 * ?n + k)) \<longleftrightarrow> 2 * ?n + k + 2 \<le> max 32 ?w"
  proof
    assume "in_range ?P (2 ^ (2 * ?n + k))"
    then have "(2::int) ^ (2 * ?n + k) < 2 ^ (max 32 ?w - 1)"
      by (simp add: in_range_SInt)
    then have "2 * ?n + k < max 32 ?w - 1"
      by simp
    then show "2 * ?n + k + 2 \<le> max 32 ?w"
      by simp
  next
    assume "2 * ?n + k + 2 \<le> max 32 ?w"
    then show "in_range ?P (2 ^ (2 * ?n + k))"
      by (rule pow_in_range(1))
  qed
  have mulF: "c_mul (c_cast (qty f) (qv f (2 ^ (?n + k)))) (qv f (2 ^ ?n)) = c_result ?P (2 ^ (2 * ?n + k))"
    using ik one pp by (simp add: c_cast_def c_mul_def c_binop_SInt conv_SInt_id max32_simps)
  have dv: "(2::int) ^ (2 * ?n + k) div 2 ^ ?n = 2 ^ (?n + k)"
    unfolding pp [symmetric] by simp
  have fin: "2 * ?n + k + 2 \<le> max 32 ?w \<Longrightarrow>
      c_shr (?P, 2 ^ (2 * ?n + k)) (ci (int ?n)) = Some (?P, 2 ^ (?n + k))"
    using fit n64 dv by (simp add: c_shr_SInt)
  show ?thesis
    using shrx ck neg_n c1 andx shlk L(1) mul0 shrP add0 k1 mul00 mulF fin fit one ik z ki n64
      frac_mask_facts(1) [OF f r]
    by (simp add: q_exp2_def math_ONE_pow [OF f r] c_cast_def conv_SInt_id c_result_SInt)
qed

text \<open>
  C28: \<open>exp2(0)\<close> is \<open>ONE\<close> exactly when \<open>ONE * ONE = 2^(2n)\<close> fits the promoted storage
  type; otherwise (e.g. Q15.16, where the "widening" cast is to the 32-bit storage type
  itself) the final product overflows and \<open>exp2(0)\<close> is undefined.
\<close>

theorem exp2_zero:
  assumes f: "valid_math f" and r: "n_bits f + 2 \<le> storage_bits f" and m: "0 < m_bits f"
  shows "q_exp2 f 0 =
    (if 2 * n_bits f + 2 \<le> max 32 (storage_bits f) then Some (2 ^ n_bits f) else None)"
  using exp2_int [OF f r m] by simp

theorem exp2_zero_witness:
  "q_exp2 \<lparr>m_bits = 7, n_bits = 8, storage_bits = 16\<rparr> 0 = Some 256 \<and>
   q_exp2 \<lparr>m_bits = 15, n_bits = 16, storage_bits = 32\<rparr> 0 = None"
  using exp2_zero [OF valid_math_Q7_8] exp2_zero [OF valid_math_Q15_16] by simp

text \<open>
  C29: the bit-scan loops of \<open>log2\<close> and \<open>sqrt\<close> end on every value of the format: the
  first counts the bits of its argument (\<open>bitlen\<close> of HOL-Library's \<open>Log_Nat\<close>), the
  second returns \<open>2^bitlen(x)\<close> wrapped to the storage width.
\<close>

theorem bit_scans:
  assumes f: "valid_math f" and v: "qval f v"
  shows "log2_scan f v 0 = Some (bitlen v) \<and>
         sqrt_scan f v 1 = Some (conv (qty f) (2 ^ nat (bitlen v)))"
proof -
  have "v < 2 ^ nat 63"
  proof -
    have "(2::int) ^ (storage_bits f - 1) \<le> 2 ^ 63"
      using valid_math_bits(3) [OF f] by (intro power_increasing) simp_all
    then show ?thesis
      using v by (simp add: in_range_SInt)
  qed
  then have "bitlen v \<le> 63"
    by (simp add: bitlen_le_iff_power)
  moreover have "qval f 1"
    using valid_math_bits(2) [OF f] pow_in_range(1) [of 0 "storage_bits f"] by simp
  ultimately show ?thesis
    using log2_scan_eq [OF f v, of 0] sqrt_scan_eq [OF f v, of 1] by simp
qed

theorem bit_scans_witness:
  "log2_scan \<lparr>m_bits = 7, n_bits = 8, storage_bits = 16\<rparr> 1024 0 = Some 11 \<and>
   sqrt_scan \<lparr>m_bits = 7, n_bits = 8, storage_bits = 16\<rparr> 1024 1 = Some 2048"
  using bit_scans [OF valid_math_Q7_8, of 1024] by (simp add: in_range_SInt compute_bitlen conv.simps)

lemma log2_pow2_eq:
  assumes f: "valid_math f" and r: "n_bits f + 2 \<le> storage_bits f" and w: "storage_bits f \<le> 32"
    and j: "j + 2 \<le> storage_bits f" and q: "qval f ((int j - int (n_bits f)) * 2 ^ n_bits f)"
  shows "q_log2 f (2 ^ j) = Some ((int j - int (n_bits f)) * 2 ^ n_bits f)"
proof -
  let ?n = "n_bits f" and ?P = "SInt (max 32 (storage_bits f))" and ?v = "(int j - int (n_bits f)) * 2 ^ n_bits f"
  have P: "max 32 (storage_bits f) = 32"
    using w by simp
  have x: "qval f (2 ^ j)" "in_range c_int (2 ^ j)"
    using pow_in_range(1) [OF j] pow_in_range(1) [of j 32] j w by simp_all
  have one: "qval f (2 ^ ?n)" "in_range c_int (2 ^ ?n)"
    using pow_in_range(1) [OF r] pow_in_range(1) [of ?n 32] r w by simp_all
  have ints: "in_range c_int (int j + 1)" "in_range c_int (int j)" "in_range c_int (int ?n)"
      "in_range c_int (int j - int ?n)" "in_range c_int (int ?n - int j)"
    using j r w unfolding in_range_SInt by simp_all
  have vq: "in_range c_int ?v"
    using q w by (rule in_range_SInt_mono)
  have le0: "\<not> c_le (qv f (2 ^ j)) (ci 0)"
    using x by (simp add: c_compare_SInt in_range_int_const)
  have "bitlen ((2::int) ^ j) = int j + 1"
    using bitlen_pow2 [of 1 j] by (simp add: compute_bitlen)
  then have scan: "log2_scan f (2 ^ j) 0 = Some (int j + 1)"
    using log2_scan_eq [OF f x(1), of 0] j w by simp
  have bp: "c_sub (ci (int j + 1)) (ci 1) = Some (ci (int j))"
    using ints by (simp add: c_sub_def c_binop_SInt c_result_SInt in_range_int_const)
  have ip: "c_sub (ci (int j)) (ci (int ?n)) = Some (ci (int j - int ?n))"
         "c_sub (ci (int ?n)) (ci (int j)) = Some (ci (int ?n - int j))"
    using ints by (simp_all add: c_sub_def c_binop_SInt c_result_SInt)
  have norm: "(if c_le (ci (int ?n)) (ci (int j)) then do {
                 k \<leftarrow> c_sub (ci (int j)) (ci (int ?n)); r \<leftarrow> c_shr (qv f (2 ^ j)) k; Some (to_q f r) }
               else do {
                 k \<leftarrow> c_sub (ci (int ?n)) (ci (int j)); r \<leftarrow> c_shl (qv f (2 ^ j)) k; Some (to_q f r) })
              = Some (2 ^ ?n)"
  proof (cases "?n \<le> j")
    case True
    have e: "(2::int) ^ j = 2 ^ (j - ?n) * 2 ^ ?n"
      using True by (simp flip: power_add)
    have "(2::int) ^ j div 2 ^ (j - ?n) = 2 ^ ?n"
      unfolding e by simp
    then show ?thesis
      using True ip ints x one w j by (simp add: c_compare_SInt c_shr_SInt c_cast_def conv_SInt_id nat_diff_distrib)
  next
    case False
    have "(2::int) ^ j * 2 ^ (?n - j) = 2 ^ ?n"
      using False by (simp flip: power_add)
    then show ?thesis
      using False ip ints x one w P r by (simp add: c_compare_SInt c_shl_SInt c_cast_def conv_SInt_id nat_diff_distrib)
  qed
  obtain L where L: "scaled_const f log2e_dbl = Some L" "qval f L"
    using scaled_const_eq [OF f r ln2_log2e_bounds(3,4)] by blast
  have fr: "c_sub (qv f (2 ^ ?n)) (qv f (2 ^ ?n)) = Some (?P, 0)"
    using one by (simp add: c_sub_def c_binop_SInt c_result_SInt in_range_SInt)
  have lf: "c_mul (c_cast (qty f) (qv f 0)) (qv f L) = Some (?P, 0)"
    using L(2) by (simp add: c_cast_def c_mul_def c_binop_SInt c_result_SInt in_range_SInt max32_simps)
  have lf': "c_shr (?P, 0) (ci (int ?n)) = Some (?P, 0)"
    using r w by (simp add: c_shr_SInt in_range_SInt)
  have a: "c_shl (ci (int j - int ?n)) (ci (int ?n)) = Some (ci ?v)"
    using ints vq r w by (simp add: c_shl_SInt conv_SInt_id)
  have add: "c_add (ci ?v) (qv f 0) = Some (ci ?v)"
    using vq P by (simp add: c_add_def c_binop_SInt c_result_SInt in_range_SInt)
  show ?thesis
    using le0 scan bp ip norm L(1) fr lf lf' a add conv_SInt_id [OF q]
    by (simp add: q_log2_def math_ONE_pow [OF f r] c_cast_def)
qed

text \<open>
  C30: \<open>log2\<close> is exact on powers of two: for \<open>x = 2^j\<close> the normalised value is
  \<open>ONE\<close>, the fractional approximation vanishes and the result is \<open>(j - n) * ONE\<close> (for
  formats up to 32 bits, where that value fits the storage type).
\<close>

theorem log2_pow2:
  assumes f: "valid_math f" and r: "n_bits f + 2 \<le> storage_bits f" and w: "storage_bits f \<le> 32"
    and j: "j + 2 \<le> storage_bits f" and q: "qval f ((int j - int (n_bits f)) * 2 ^ n_bits f)"
  shows "q_log2 f (2 ^ j) = Some ((int j - int (n_bits f)) * 2 ^ n_bits f)"
  using assms by (rule log2_pow2_eq)

theorem log2_pow2_witness:
  "q_log2 \<lparr>m_bits = 7, n_bits = 8, storage_bits = 16\<rparr> 1024 = Some 512"
  using log2_pow2 [OF valid_math_Q7_8, of 10] by (simp add: in_range_SInt)


text \<open>
  C40: \<open>pow\<close> composes \<open>log2\<close> and \<open>exp2\<close> exactly on powers of two: for formats up to
  32 bits, \<open>pow(2^a, c) = 2^(a c)\<close> for natural \<open>a\<close> and \<open>c\<close> whenever the base, the
  exponent, the product \<open>c * log2(2^a)\<close> in the promoted type and the result fit.
\<close>

theorem pow_pow2:
  assumes f: "valid_math f" and w: "storage_bits f \<le> 32" and r: "n_bits f + 2 \<le> storage_bits f"
    and a: "n_bits f + a + 2 \<le> storage_bits f" and c: "c * a < m_bits f"
    and fit: "2 * n_bits f + c * a + 2 \<le> 32" and e: "qval f (int c * 2 ^ n_bits f)"
  shows "q_pow f (2 ^ (n_bits f + a)) (int c * 2 ^ n_bits f) = Some (2 ^ (n_bits f + c * a))"
proof -
  let ?n = "n_bits f" and ?P = "SInt (max 32 (storage_bits f))"
  have P: "max 32 (storage_bits f) = 32"
    using w by simp
  have b: "qval f (2 ^ (?n + a))"
    using pow_in_range(1) [OF a] .
  have le0: "\<not> c_le (qv f (2 ^ (?n + a))) (ci 0)"
    using b by (simp add: c_compare_SInt in_range_int_const)
  have la: "qval f (int a * 2 ^ ?n)"
    using mul_pow2_in_range [of ?n a] a by simp
  have lb: "q_log2 f (2 ^ (?n + a)) = Some (int a * 2 ^ ?n)"
    using log2_pow2_eq [OF f r w, of "?n + a"] a la by simp
  have ca: "in_range ?P (int (c * a) * 2 ^ (2 * ?n))"
    using mul_pow2_in_range [of "2 * ?n" "c * a" 32] fit P by simp
  have "(2::int) ^ (2 * ?n) = 2 ^ ?n * 2 ^ ?n"
    by (simp add: mult_2 power_add)
  then have prod: "int c * 2 ^ ?n * (int a * 2 ^ ?n) = int (c * a) * 2 ^ (2 * ?n)"
    by (simp add: algebra_simps)
  have "c_mul (c_cast (qty f) (qv f (int c * 2 ^ ?n))) (qv f (int a * 2 ^ ?n)) =
      c_result ?P (int c * 2 ^ ?n * (int a * 2 ^ ?n))"
    using e la by (simp add: c_cast_def c_mul_def c_binop_SInt conv_SInt_id max32_simps)
  then have mul: "c_mul (c_cast (qty f) (qv f (int c * 2 ^ ?n))) (qv f (int a * 2 ^ ?n)) =
      Some (?P, int (c * a) * 2 ^ (2 * ?n))"
    unfolding prod using ca by (simp only: c_result_SInt if_True)
  have dv: "int (c * a) * 2 ^ (2 * ?n) div 2 ^ ?n = int (c * a) * 2 ^ ?n"
    by (simp add: mult_2 power_add)
  have s: "c_shr (?P, int (c * a) * 2 ^ (2 * ?n)) (ci (int ?n)) = Some (?P, int (c * a) * 2 ^ ?n)"
    using ca dv r P by (simp add: c_shr_SInt)
  have sq: "qval f (int (c * a) * 2 ^ ?n)"
    using mul_pow2_in_range [of ?n "c * a"] c valid_math_bits(1) [OF f] by simp
  have ex: "q_exp2 f (int (c * a) * 2 ^ ?n) = Some (2 ^ (?n + c * a))"
    using exp2_int [OF f r c] fit P by simp
  show ?thesis
    using le0 lb mul s sq ex by (simp add: q_pow_def c_cast_def conv_SInt_id)
qed

theorem pow_pow2_witness:
  "q_pow \<lparr>m_bits = 7, n_bits = 8, storage_bits = 16\<rparr> 512 768 = Some 2048"
  using pow_pow2 [OF valid_math_Q7_8, of 1 3] by (simp add: in_range_SInt)

end
