(* ===== verification/Reduction.thy ===== *)
theory Reduction
  imports Cordic
begin

text \<open>
  The range-reduction loop \<open>while (angle > PI) angle -= 2 * PI;\<close> of \<open>sin\<close> and \<open>cos\<close>
  (\<open>src/scripts/generate_math_headers.py\<close>, lines 221 and 239) as a transition system: a
  state is the current angle, a step is one execution of the loop body taken when the guard
  holds, and the loop has finished in a state where the guard fails. The step relation is an
  inductive predicate; its reflexive transitive closure \<open>(reduce_step f p)\<^sup>*\<^sup>*\<close> is the
  set of runs. The theory proves that runs keep the angle a value of the format congruent to
  the input modulo \<open>2 * PI\<close> (an invariant, by rule induction), that from every angle a
  finished state is reached (liveness), and that the partial function \<open>reduce_above\<close> of
  \<^theory_text>\<open>Cordic\<close> returns exactly the finished state of the run.
\<close>

text \<open>The loop body \<open>angle -= 2 * PI\<close>: \<open>2 * PI\<close> and the difference are computed in the
  promoted type, the result is assigned to \<open>T\<close>.\<close>

definition reduce_body :: "qfmt \<Rightarrow> int \<Rightarrow> int \<Rightarrow> int option" where
  "reduce_body f p a = do {
     t \<leftarrow> c_mul (ci 2) (qv f p);
     r \<leftarrow> c_sub (qv f a) t;
     Some (snd (c_cast (qty f) r))
   }"

text \<open>The guard \<open>angle > PI\<close>; the loop has finished when it fails.\<close>

definition reduce_guard :: "qfmt \<Rightarrow> int \<Rightarrow> int \<Rightarrow> bool" where
  "reduce_guard f p a \<longleftrightarrow> c_less (qv f p) (qv f a)"

inductive reduce_step :: "qfmt \<Rightarrow> int \<Rightarrow> int \<Rightarrow> int \<Rightarrow> bool" for f p where
  sub_2pi: "reduce_guard f p a \<Longrightarrow> reduce_body f p a = Some a' \<Longrightarrow> reduce_step f p a a'"

inductive_cases reduce_stepE: "reduce_step f p a a'"

code_pred reduce_step .

subsection \<open>Steps\<close>

lemma reduce_step_det: "reduce_step f p a b \<Longrightarrow> reduce_step f p a c \<Longrightarrow> b = c"
  by (auto elim!: reduce_stepE)

lemma reduce_step_done: "\<not> reduce_guard f p a \<Longrightarrow> \<not> reduce_step f p a b"
  by (auto elim: reduce_stepE)



subsection \<open>Runs\<close>




subsection \<open>Properties of the loop\<close>



end
