(* ===== verification/Emission.thy ===== *)
theory Emission
  imports Cordic
begin

text \<open>
  Text emission and the drivers. The names and the numeric text the generators print:
  Python's \<open>str\<close> of an integer (and the \<open>{m}\<close>, \<open>{n}\<close> fields of the f-strings), the file name
  and include guard of the core header (\<open>generate_header\<close>, lines 40--50 of
  \<open>src/scripts/generate_headers.py\<close>), the include guard and file names of the math header
  and C file (\<open>src/scripts/generate_math_headers.py\<close>, lines 26--27, 402, 408), and the
  printed CORDIC table (line 154). The drivers are the writes of \<open>generate_header\<close> and the
  two \<open>main()\<close> functions, as updates of an output directory (a map from file names to the
  files' modelled contents). A C compiler's reading of the printed initializer list is
  given as a reference parser, against which the printing is proved correct.
  Strings are HOL \<open>string\<close>s (lists of 8-bit characters); \<open>str.upper\<close> is modelled on ASCII
  letters (Python would also upper-case non-ASCII letters of an override).
\<close>

fun string_of_nat :: "nat \<Rightarrow> string" where
  "string_of_nat n =
     (if n < 10 then [char_of (48 + n)] else string_of_nat (n div 10) @ [char_of (48 + n mod 10)])"

declare string_of_nat.simps [simp del]

definition string_of_int :: "int \<Rightarrow> string" where
  "string_of_int i = (if i < 0 then CHR ''-'' # string_of_nat (nat (- i)) else string_of_nat (nat i))"

text \<open>\<open>str.upper\<close> and \<open>str.replace(".", "_")\<close> on single characters.\<close>

definition char_upper :: "char \<Rightarrow> char" where
  "char_upper c = (if 97 \<le> (of_char c :: nat) \<and> (of_char c :: nat) \<le> 122 then char_of (of_char c - 32 :: nat) else c)"

definition dot_to_underscore :: "char \<Rightarrow> char" where
  "dot_to_underscore c = (if c = CHR ''.'' then CHR ''_'' else c)"

text \<open>Lines 40--50: an override is used when it is a non-empty string (Python truthiness).\<close>

definition header_filename :: "nat \<Rightarrow> nat \<Rightarrow> string option \<Rightarrow> string" where
  "header_filename m n ov = (case ov of
     Some s \<Rightarrow> if s \<noteq> [] then s else ''q'' @ string_of_nat m @ ''_'' @ string_of_nat n @ ''.h''
   | None \<Rightarrow> ''q'' @ string_of_nat m @ ''_'' @ string_of_nat n @ ''.h'')"

definition header_guard :: "nat \<Rightarrow> nat \<Rightarrow> string option \<Rightarrow> string" where
  "header_guard m n ov = (case ov of
     Some s \<Rightarrow> if s \<noteq> [] then ''FIXP_GEN_'' @ map char_upper (map dot_to_underscore s)
               else ''FIXP_GEN_Q'' @ string_of_nat m @ ''_'' @ string_of_nat n @ ''_H''
   | None \<Rightarrow> ''FIXP_GEN_Q'' @ string_of_nat m @ ''_'' @ string_of_nat n @ ''_H'')"

text \<open>The math header's guard (lines 26--27) and the files \<open>main()\<close> writes (lines 402, 408).\<close>

definition math_guard :: "nat \<Rightarrow> nat \<Rightarrow> string" where
  "math_guard m n = ''FIXP_Q'' @ string_of_nat m @ ''_'' @ string_of_nat n @ ''_MATH_H''"

definition math_header_filename :: "nat \<Rightarrow> nat \<Rightarrow> string" where
  "math_header_filename m n = ''q'' @ string_of_nat m @ ''_'' @ string_of_nat n @ ''_math.h''"

definition math_c_filename :: "nat \<Rightarrow> nat \<Rightarrow> string" where
  "math_c_filename m n = ''q'' @ string_of_nat m @ ''_'' @ string_of_nat n @ ''_math.c''"

text \<open>\<open>sep.join(xs)\<close>, and line 154: \<open>",\n    ".join(str(x) for x in atan_table)\<close>.\<close>

fun join :: "string \<Rightarrow> string list \<Rightarrow> string" where
  "join sep [] = []"
| "join sep [x] = x"
| "join sep (x # y # ys) = x @ sep @ join sep (y # ys)"

definition table_str :: "int list \<Rightarrow> string" where
  "table_str xs = join (CHR '','' # CHR 0x0A # ''    '') (map string_of_int xs)"

text \<open>The formats \<open>main()\<close> generates (lines 130--146 of \<open>generate_headers.py\<close> and 389--397
  of \<open>generate_math_headers.py\<close>).\<close>

definition core_main_formats :: "(nat \<times> nat) list" where
  "core_main_formats = [(15, 16), (16, 16), (0, 7), (7, 8), (23, 8), (1, 30)]"

definition math_main_formats :: "(nat \<times> nat) list" where
  "math_main_formats = [(15, 16), (8, 8), (7, 8), (0, 7), (0, 15), (23, 8), (31, 0)]"

subsection \<open>The files the drivers write\<close>

text \<open>
  A written file is abstracted to what the other theories do not already model: the core
  header's include guard and format (the printed functions are \<^theory_text>\<open>FixCore\<close>), the math
  header's guard and format (its macros and functions are \<^theory_text>\<open>MathBasic\<close>), and the C file's
  \<open>#include\<close> target, the text printed into \<open>cordic_atan_table\<close>'s initializer and the format
  (its functions are \<^theory_text>\<open>Cordic\<close> and \<^theory_text>\<open>MathFun\<close>). The output directory is a map from file
  names to files; writing a file overwrites an earlier one of the same name.
\<close>

datatype gen_file =
    CoreHeader string core_fmt
  | MathHeader string qfmt
  | MathImpl string string qfmt

type_synonym out_dir = "string \<rightharpoonup> gen_file"

text \<open>\<open>generate_header\<close> (lines 5--124): skip above 64 bits, else write the header under its
  name.\<close>

definition generate_header :: "nat \<Rightarrow> nat \<Rightarrow> string option \<Rightarrow> out_dir \<Rightarrow> out_dir" where
  "generate_header m n ov d =
     (case header_format m n of
        None \<Rightarrow> d
      | Some f \<Rightarrow> d(header_filename m n ov \<mapsto> CoreHeader (header_guard m n ov) f))"

text \<open>\<open>main()\<close> of \<open>generate_headers.py\<close> (lines 126--146): the six calls in order.\<close>

definition core_main :: "out_dir \<Rightarrow> out_dir" where
  "core_main d = fold (\<lambda>(m, n). generate_header m n None) core_main_formats d"

text \<open>\<open>generate_math_header\<close> (lines 10--27) and \<open>generate_cordic_c_file\<close> (lines 136--160):
  \<open>ValueError\<close> above 64 bits, else the file's contents.\<close>

definition generate_math_header :: "nat \<Rightarrow> nat \<Rightarrow> gen_error + gen_file" where
  "generate_math_header m n =
     (case math_format m n of
        Inl e \<Rightarrow> Inl e
      | Inr f \<Rightarrow> Inr (MathHeader (math_guard m n) f))"

definition generate_cordic_c_file :: "nat \<Rightarrow> nat \<Rightarrow> gen_error + gen_file" where
  "generate_cordic_c_file m n =
     (case cordic_format m n of
        Inl e \<Rightarrow> Inl e
      | Inr f \<Rightarrow> Inr (MathImpl (math_header_filename m n) (table_str (snd (cordic_tables n))) f))"

text \<open>The loop of \<open>main()\<close> (lines 399--410): per format, write the header, then the C file.
  An exception ends the run and leaves the files written so far.\<close>

fun math_main_loop :: "(nat \<times> nat) list \<Rightarrow> out_dir \<Rightarrow> gen_error option \<times> out_dir" where
  "math_main_loop [] d = (None, d)"
| "math_main_loop ((m, n) # fs) d =
     (case generate_math_header m n of
        Inl e \<Rightarrow> (Some e, d)
      | Inr h \<Rightarrow>
          (let d' = d(math_header_filename m n \<mapsto> h) in
           case generate_cordic_c_file m n of
             Inl e \<Rightarrow> (Some e, d')
           | Inr c \<Rightarrow> math_main_loop fs (d'(math_c_filename m n \<mapsto> c))))"

definition math_main :: "out_dir \<Rightarrow> gen_error option \<times> out_dir" where
  "math_main d = math_main_loop math_main_formats d"

text \<open>The files one format contributes, as an association list in the order they are
  written: the reference against which the drivers are checked.\<close>

definition core_entries :: "nat \<Rightarrow> nat \<Rightarrow> (string \<times> gen_file) list" where
  "core_entries m n =
     (case header_format m n of
        None \<Rightarrow> []
      | Some f \<Rightarrow> [(header_filename m n None, CoreHeader (header_guard m n None) f)])"

definition math_entries :: "nat \<Rightarrow> nat \<Rightarrow> (string \<times> gen_file) list" where
  "math_entries m n =
     (case math_format m n of
        Inl _ \<Rightarrow> []
      | Inr f \<Rightarrow> [(math_header_filename m n, MathHeader (math_guard m n) f),
                  (math_c_filename m n,
                   MathImpl (math_header_filename m n) (table_str (snd (cordic_tables n))) f)])"

text \<open>
  The reading of the printed initializer list by a C compiler: the list is split at commas,
  white space around an element is skipped, and an element is an optional unary minus and a
  decimal constant. This is the C grammar's reading, not code of the repository; it is the
  reference against which the printing is checked.
\<close>

definition is_space :: "char \<Rightarrow> bool" where
  "is_space c \<longleftrightarrow> c = CHR '' '' \<or> c = CHR 0x0A"

definition is_digit :: "char \<Rightarrow> bool" where
  "is_digit c \<longleftrightarrow> 48 \<le> (of_char c :: nat) \<and> (of_char c :: nat) \<le> 57"

fun split_at_comma :: "string \<Rightarrow> string list" where
  "split_at_comma [] = [[]]"
| "split_at_comma (c # cs) =
     (if c = CHR '','' then [] # split_at_comma cs
      else (case split_at_comma cs of w # ws \<Rightarrow> (c # w) # ws | [] \<Rightarrow> [[c]]))"

definition trim :: "string \<Rightarrow> string" where
  "trim s = rev (dropWhile is_space (rev (dropWhile is_space s)))"

definition nat_of_digits :: "string \<Rightarrow> nat" where
  "nat_of_digits ds = foldl (\<lambda>acc c. 10 * acc + (of_char c - 48 :: nat)) 0 ds"

definition parse_constant :: "string \<Rightarrow> int option" where
  "parse_constant s =
     (if s \<noteq> [] \<and> hd s = CHR ''-'' then
        (if tl s \<noteq> [] \<and> list_all is_digit (tl s) then Some (- int (nat_of_digits (tl s))) else None)
      else if s \<noteq> [] \<and> list_all is_digit s then Some (int (nat_of_digits s)) else None)"

definition parse_init :: "string \<Rightarrow> int list option" where
  "parse_init s =
     (if list_all is_space s then Some [] else those (map (parse_constant \<circ> trim) (split_at_comma s)))"


lemma digit_char:
  assumes "d < 10"
  shows "is_digit (char_of (48 + d))" and "of_char (char_of (48 + d)) - 48 = (d :: nat)"
  using assms by (simp_all add: is_digit_def of_char_of)

lemma string_of_nat_digits: "string_of_nat n \<noteq> [] \<and> list_all is_digit (string_of_nat n)"
proof (induction n rule: string_of_nat.induct)
  case (1 n)
  then show ?case
    by (simp add: string_of_nat.simps [of n] digit_char)
qed

lemma nat_of_digits_snoc: "nat_of_digits (ds @ [c]) = 10 * nat_of_digits ds + (of_char c - 48)"
  by (simp add: nat_of_digits_def)

lemma nat_of_string_of_nat: "nat_of_digits (string_of_nat n) = n"
proof (induction n rule: string_of_nat.induct)
  case (1 n)
  show ?case
  proof (cases "n < 10")
    case True
    then show ?thesis
      using digit_char(2) [of n] by (subst string_of_nat.simps) (simp add: nat_of_digits_def)
  next
    case False
    then have "nat_of_digits (string_of_nat (n div 10)) = n div 10"
      using 1 by simp
    then show ?thesis
      using False digit_char(2) [of "n mod 10"] by (subst string_of_nat.simps) (simp add: nat_of_digits_snoc)
  qed
qed

lemma digit_not_special:
  "is_digit c \<Longrightarrow> \<not> is_space c \<and> c \<noteq> CHR '','' \<and> c \<noteq> CHR ''-'' \<and> c \<noteq> CHR ''_'' \<and> c \<noteq> CHR ''.''"
  by (auto simp: is_digit_def is_space_def)

lemma parse_string_of_int: "parse_constant (string_of_int i) = Some i"
proof -
  have d: "string_of_nat k \<noteq> []" "list_all is_digit (string_of_nat k)" for k
    using string_of_nat_digits by blast+
  have h: "hd (string_of_nat k) \<noteq> CHR ''-''" for k
    using d [of k] digit_not_special by (cases "string_of_nat k") auto
  show ?thesis
    using d h nat_of_string_of_nat by (simp add: parse_constant_def string_of_int_def)
qed

lemma string_of_int_chars:
  "string_of_int i \<noteq> [] \<and> (\<forall>c \<in> set (string_of_int i). \<not> is_space c \<and> c \<noteq> CHR '','')"
proof -
  have "string_of_nat k \<noteq> [] \<and> (\<forall>c \<in> set (string_of_nat k). \<not> is_space c \<and> c \<noteq> CHR '','')" for k
    using string_of_nat_digits [of k] digit_not_special by (auto simp: list_all_iff)
  then show ?thesis
    by (simp add: string_of_int_def is_space_def)
qed

lemma split_at_comma_nonempty: "split_at_comma s \<noteq> []"
  by (induction s) (auto split: list.split)

lemma split_at_comma_no_comma: "CHR '','' \<notin> set x \<Longrightarrow> split_at_comma x = [x]"
  by (induction x) auto

lemma split_at_comma_prefix:
  "CHR '','' \<notin> set x \<Longrightarrow> split_at_comma (x @ y) = (x @ hd (split_at_comma y)) # tl (split_at_comma y)"
  by (induction x) (auto simp: split_at_comma_nonempty split: list.split)

lemma split_at_comma_join:
  assumes "\<forall>s \<in> set (x # xs). CHR '','' \<notin> set s" and "CHR '','' \<notin> set ws"
  shows "split_at_comma (join (CHR '','' # ws) (x # xs)) = x # map (\<lambda>s. ws @ s) xs"
  using assms
proof (induction xs arbitrary: x)
  case Nil
  then show ?case
    by (simp add: split_at_comma_no_comma)
next
  case (Cons y ys)
  have ih: "split_at_comma (join (CHR '','' # ws) (y # ys)) = y # map (\<lambda>s. ws @ s) ys"
    using Cons by simp
  have "split_at_comma (x @ CHR '','' # ws @ join (CHR '','' # ws) (y # ys)) =
      x # split_at_comma (ws @ join (CHR '','' # ws) (y # ys))"
    using Cons.prems(1) by (simp add: split_at_comma_prefix)
  then show ?case
    using ih Cons.prems(2) by (simp add: split_at_comma_prefix)
qed

lemma dropWhile_no_space: "\<forall>c \<in> set s. \<not> is_space c \<Longrightarrow> dropWhile is_space s = s"
  by (cases s) simp_all

lemma trim_no_space: "\<forall>c \<in> set s. \<not> is_space c \<Longrightarrow> trim s = s"
  by (simp add: trim_def dropWhile_no_space)

lemma trim_indent: "list_all is_space ws \<Longrightarrow> \<forall>c \<in> set s. \<not> is_space c \<Longrightarrow> trim (ws @ s) = s"
  by (simp add: trim_def dropWhile_append2 list_all_iff dropWhile_no_space)

lemma those_Some: "(\<forall>y \<in> set ys. g y = Some y) \<Longrightarrow> those (map g ys) = Some ys"
  by (induction ys) auto

lemma parse_table_str: "parse_init (table_str xs) = Some xs"
proof (cases xs)
  case Nil
  then show ?thesis
    by (simp add: table_str_def parse_init_def)
next
  case (Cons x rest)
  let ?ws = "CHR 0x0A # ''    ''"
  have ws: "list_all is_space ?ws" "CHR '','' \<notin> set ?ws"
    by (simp_all add: is_space_def)
  note c = string_of_int_chars
  have split: "split_at_comma (table_str xs) =
      string_of_int x # map (\<lambda>s. ?ws @ s) (map string_of_int rest)"
  proof -
    have "split_at_comma (join (CHR '','' # ?ws) (string_of_int x # map string_of_int rest)) =
        string_of_int x # map (\<lambda>s. ?ws @ s) (map string_of_int rest)"
      by (rule split_at_comma_join) (use c ws(2) in auto)
    then show ?thesis
      by (simp only: table_str_def Cons list.map)
  qed
  have ns: "\<not> list_all is_space (table_str xs)"
  proof -
    obtain c0 cs where "string_of_int x = c0 # cs" "\<not> is_space c0"
      using c [of x] by (cases "string_of_int x") auto
    then show ?thesis
      unfolding table_str_def Cons by (cases rest) simp_all
  qed
  have ti: "parse_constant (trim (?ws @ string_of_int y)) = Some y" for y
    using trim_indent [OF ws(1), of "string_of_int y"] c [of y] parse_string_of_int [of y] by simp
  have "map (parse_constant \<circ> trim) (split_at_comma (table_str xs)) = map Some xs"
    using split c ti by (simp add: Cons trim_no_space parse_string_of_int)
  then show ?thesis
    using ns by (simp add: parse_init_def those_Some [where g = Some, simplified])
qed

subsection \<open>File names\<close>

lemma not_digit_sep [simp]: "\<not> is_digit CHR ''_''" "\<not> is_digit CHR ''.''"
  by (simp_all add: is_digit_def)

lemma digits_sep:
  assumes "list_all is_digit a" and "list_all is_digit a'" and "\<not> is_digit c" and "\<not> is_digit c'"
    and "a @ c # b = a' @ c' # b'"
  shows "a = a' \<and> c = c' \<and> b = b'"
  using assms
proof (induction a arbitrary: a')
  case Nil
  then show ?case by (cases a') auto
next
  case (Cons x xs)
  show ?case
  proof (cases a')
    case Nil
    then show ?thesis using Cons.prems by auto
  next
    case (Cons y ys)
    then show ?thesis using Cons.prems Cons.IH [of ys] by simp
  qed
qed

lemma string_of_nat_inj: "string_of_nat m = string_of_nat n \<longleftrightarrow> m = n"
  by (metis nat_of_string_of_nat)

text \<open>Two names built as \<open>m _ n c s\<close> from digit strings agree exactly when their fields do.\<close>

lemma name_fields_eq:
  assumes "\<not> is_digit c" and "\<not> is_digit c'"
  shows "(string_of_nat m @ CHR ''_'' # string_of_nat n @ c # s =
          string_of_nat m' @ CHR ''_'' # string_of_nat n' @ c' # s') \<longleftrightarrow>
         m = m' \<and> n = n' \<and> c = c' \<and> s = s'"
proof
  assume eq: "string_of_nat m @ CHR ''_'' # string_of_nat n @ c # s =
              string_of_nat m' @ CHR ''_'' # string_of_nat n' @ c' # s'"
  have d: "list_all is_digit (string_of_nat k)" for k
    using string_of_nat_digits by blast
  from digits_sep [OF d d _ _ eq] have "m = m'" and rest: "string_of_nat n @ c # s = string_of_nat n' @ c' # s'"
    by (simp_all add: string_of_nat_inj)
  with digits_sep [OF d d assms rest] show "m = m' \<and> n = n' \<and> c = c' \<and> s = s'"
    by (simp add: string_of_nat_inj)
qed simp

subsection \<open>The drivers\<close>

lemma cordic_format_math: "cordic_format m n = math_format m n"
  by (simp add: cordic_format_def math_format_def)

lemma map_of_rev_distinct: "distinct (map fst xs) \<Longrightarrow> map_of (rev xs) = map_of xs"
  by (rule ext) (metis distinct_rev map_of_eq_None_iff map_of_eq_Some_iff option.exhaust rev_map set_rev)

lemma map_of_same_value:
  assumes "(k, v) \<in> set xs" and "\<forall>v'. (k, v') \<in> set xs \<longrightarrow> v' = v"
  shows "map_of xs k = Some v"
proof -
  obtain v' where v': "map_of xs k = Some v'"
    using weak_map_of_SomeI [OF assms(1)] by blast
  then have "(k, v') \<in> set xs" by (rule map_of_SomeD)
  with v' show ?thesis using assms(2) by simp
qed

lemma fold_generate_header:
  "fold (\<lambda>(m, n). generate_header m n None) fs d =
     d ++ map_of (rev (concat (map (\<lambda>(m, n). core_entries m n) fs)))"
proof (induction fs arbitrary: d)
  case Nil
  then show ?case by simp
next
  case (Cons x fs)
  obtain m n where x: "x = (m, n)" by (cases x)
  have "generate_header m n None d = d ++ map_of (rev (core_entries m n))"
    by (simp add: generate_header_def core_entries_def split: option.split)
  then show ?case
    using Cons [of "generate_header m n None d"] by (simp add: x map_of_append map_add_assoc)
qed

lemma math_entries_Inr:
  "math_format m n = Inr f \<Longrightarrow>
   math_entries m n = [(math_header_filename m n, MathHeader (math_guard m n) f),
     (math_c_filename m n, MathImpl (math_header_filename m n) (table_str (snd (cordic_tables n))) f)]"
  by (simp add: math_entries_def)

lemma math_main_loop_ok:
  "list_all (\<lambda>(m, n). total_bits m n \<le> 64) fs \<Longrightarrow>
   math_main_loop fs d = (None, d ++ map_of (rev (concat (map (\<lambda>(m, n). math_entries m n) fs))))"
proof (induction fs arbitrary: d)
  case Nil
  then show ?case by simp
next
  case (Cons x fs)
  obtain m n where x: "x = (m, n)" by (cases x)
  obtain f where f: "math_format m n = Inr f"
    using Cons.prems by (simp add: x math_format_eq)
  have "math_main_loop (x # fs) d = math_main_loop fs (d ++ map_of (rev (math_entries m n)))"
    by (simp add: x f math_entries_Inr cordic_format_math generate_math_header_def generate_cordic_c_file_def)
  then show ?case
    using Cons by (simp add: x map_of_append map_add_assoc)
qed

lemma math_main_loop_error:
  "\<not> list_all (\<lambda>(m, n). total_bits m n \<le> 64) fs \<Longrightarrow> fst (math_main_loop fs d) = Some ValueError"
proof (induction fs arbitrary: d)
  case (Cons x fs)
  obtain m n where x: "x = (m, n)" by (cases x)
  show ?case
  proof (cases "total_bits m n \<le> 64")
    case True
    then obtain f where f: "math_format m n = Inr f" by (simp add: math_format_eq)
    then show ?thesis
      using Cons True by (simp add: x cordic_format_math generate_math_header_def generate_cordic_c_file_def)
  next
    case False
    then show ?thesis
      by (simp add: x math_format_eq generate_math_header_def)
  qed
qed simp

subsection \<open>Names, guards and the drivers' output\<close>

lemma math_names_eq:
  "math_header_filename m n = math_header_filename m' n' \<longleftrightarrow> m = m' \<and> n = n'"
  "math_c_filename m n = math_c_filename m' n' \<longleftrightarrow> m = m' \<and> n = n'"
  "math_header_filename m n \<noteq> math_c_filename m' n'"
  "math_c_filename m n \<noteq> math_header_filename m' n'"
  by (simp_all add: math_header_filename_def math_c_filename_def name_fields_eq)

lemma math_entries_keys:
  assumes "(k, v) \<in> set (math_entries m' n')" and "math_format m n = Inr f"
  shows "k = math_header_filename m n \<Longrightarrow> v = MathHeader (math_guard m n) f"
    and "k = math_c_filename m n \<Longrightarrow>
         v = MathImpl (math_header_filename m n) (table_str (snd (cordic_tables n))) f"
  using assms by (auto simp: math_entries_def math_names_eq split: sum.splits)

lemma math_entries_lookup:
  assumes "(m, n) \<in> set fs" and "math_format m n = Inr f"
  shows "map_of (rev (concat (map (\<lambda>(m, n). math_entries m n) fs))) (math_header_filename m n) =
           Some (MathHeader (math_guard m n) f)"
    and "map_of (rev (concat (map (\<lambda>(m, n). math_entries m n) fs))) (math_c_filename m n) =
           Some (MathImpl (math_header_filename m n) (table_str (snd (cordic_tables n))) f)"
proof -
  have mem: "set (math_entries m n) \<subseteq> set (rev (concat (map (\<lambda>(m, n). math_entries m n) fs)))"
    using assms(1) by force
  show "map_of (rev (concat (map (\<lambda>(m, n). math_entries m n) fs))) (math_header_filename m n) =
           Some (MathHeader (math_guard m n) f)"
    using mem math_entries_keys(1) [OF _ assms(2)]
    by (intro map_of_same_value) (auto simp: math_entries_Inr [OF assms(2)])
  show "map_of (rev (concat (map (\<lambda>(m, n). math_entries m n) fs))) (math_c_filename m n) =
           Some (MathImpl (math_header_filename m n) (table_str (snd (cordic_tables n))) f)"
    using mem math_entries_keys(2) [OF _ assms(2)]
    by (intro map_of_same_value) (auto simp: math_entries_Inr [OF assms(2)])
qed

lemma math_entries_impl:
  "(k, MathImpl h t f) \<in> set (concat (map (\<lambda>(m, n). math_entries m n) fs)) \<Longrightarrow>
   \<exists>m n. (m, n) \<in> set fs \<and> math_format m n = Inr f \<and> h = math_header_filename m n \<and>
         t = table_str (snd (cordic_tables n))"
  by (fastforce simp: math_entries_def split: sum.splits)

lemma math_entries_fst:
  "list_all (\<lambda>(m, n). total_bits m n \<le> 64) fs \<Longrightarrow>
   fst ` set (concat (map (\<lambda>(m, n). math_entries m n) fs)) =
     (\<lambda>(m, n). math_header_filename m n) ` set fs \<union> (\<lambda>(m, n). math_c_filename m n) ` set fs"
proof (induction fs)
  case (Cons x fs)
  obtain m n where x: "x = (m, n)" by (cases x)
  obtain f where "math_format m n = Inr f"
    using Cons.prems by (simp add: x math_format_eq)
  then show ?case
    using Cons by (auto simp: x math_entries_Inr)
qed simp

lemma core_entries_all:
  "list_all (\<lambda>(m, n). header_format m n \<noteq> None) fs \<Longrightarrow>
   concat (map (\<lambda>(m, n). core_entries m n) fs) =
     map (\<lambda>(m, n). (header_filename m n None, CoreHeader (header_guard m n None) (the (header_format m n)))) fs"
  by (induction fs) (auto simp: core_entries_def)

lemma digit_upper: "is_digit c \<Longrightarrow> char_upper (dot_to_underscore c) = c"
  by (auto simp: is_digit_def char_upper_def dot_to_underscore_def)

lemma upper_digits: "list_all is_digit s \<Longrightarrow> map (char_upper \<circ> dot_to_underscore) s = s"
  by (induction s) (simp_all add: digit_upper)

lemma upper_string_of_nat: "map (char_upper \<circ> dot_to_underscore) (string_of_nat k) = string_of_nat k"
  using string_of_nat_digits [of k] by (simp add: upper_digits)

lemma upper_letters: "char_upper (dot_to_underscore CHR ''q'') = CHR ''Q''"
  "char_upper (dot_to_underscore CHR ''h'') = CHR ''H''"
  "char_upper (dot_to_underscore CHR ''.'') = CHR ''_''"
  "char_upper (dot_to_underscore CHR ''_'') = CHR ''_''"
  by code_simp+

text \<open>
  C34: the CORDIC table as printed by line 154 (\<open>",\n    ".join(str(x) ...)\<close>) is read back by
  a C compiler as exactly the list of integers Python computed, for every list.
\<close>

theorem table_str_roundtrip: "parse_init (table_str xs) = Some xs"
  by (rule parse_table_str)

text \<open>
  C35: the names the generators derive from \<open>(m, n)\<close> determine the format: different formats
  get different core header names, core guards, math header and C file names and math
  guards; a math header never has a C file's name; and passing the default file name as
  \<open>filename_override\<close> yields the default include guard.
\<close>

theorem file_names_inj:
  "(header_filename m n None = header_filename m' n' None \<longleftrightarrow> m = m' \<and> n = n') \<and>
   (header_guard m n None = header_guard m' n' None \<longleftrightarrow> m = m' \<and> n = n') \<and>
   (math_header_filename m n = math_header_filename m' n' \<longleftrightarrow> m = m' \<and> n = n') \<and>
   (math_c_filename m n = math_c_filename m' n' \<longleftrightarrow> m = m' \<and> n = n') \<and>
   (math_guard m n = math_guard m' n' \<longleftrightarrow> m = m' \<and> n = n') \<and>
   math_header_filename m n \<noteq> math_c_filename m' n' \<and>
   header_guard m n (Some (header_filename m n None)) = header_guard m n None"
  by (simp add: header_filename_def header_guard_def math_header_filename_def math_c_filename_def
      math_guard_def name_fields_eq upper_string_of_nat upper_letters)

text \<open>
  C36: \<open>main()\<close> of \<open>generate_headers.py\<close>, run on an empty directory, skips none of its six
  formats and leaves exactly one file per format, named \<open>q<m>_<n>.h\<close> and holding that
  format's guard and storage selection.
\<close>

theorem core_main_files:
  "core_main Map.empty =
     map_of (map (\<lambda>(m, n). (header_filename m n None,
       CoreHeader (header_guard m n None) (the (header_format m n)))) core_main_formats) \<and>
   list_all (\<lambda>(m, n). header_format m n \<noteq> None) core_main_formats"
proof -
  have some: "list_all (\<lambda>(m, n). header_format m n \<noteq> None) core_main_formats"
    by (simp add: core_main_formats_def header_format_eq total_bits_def)
  let ?L = "map (\<lambda>(m, n). (header_filename m n None,
              CoreHeader (header_guard m n None) (the (header_format m n)))) core_main_formats"
  have dist: "distinct (map fst ?L)"
    by (simp add: core_main_formats_def header_filename_def name_fields_eq string_of_nat_inj)
  show ?thesis
    using some dist fold_generate_header [of core_main_formats Map.empty]
    by (simp add: core_main_def core_entries_all map_of_rev_distinct)
qed

text \<open>
  C37: \<open>main()\<close> of \<open>generate_math_headers.py\<close> raises no \<open>ValueError\<close> on its seven formats and
  writes exactly their headers and C files; every C file includes a header of the same
  directory generated for the same format, and its printed atan initializers, as read by
  the compiler and converted into \<open>cordic_atan_table\<close>'s element type, are the table
  \<^theory_text>\<open>Cordic\<close> models.
\<close>

theorem math_main_includes:
  "\<exists>d. math_main Map.empty = (None, d) \<and>
     dom d = (\<lambda>(m, n). math_header_filename m n) ` set math_main_formats \<union>
             (\<lambda>(m, n). math_c_filename m n) ` set math_main_formats \<and>
     (\<forall>k h t f. d k = Some (MathImpl h t f) \<longrightarrow>
        (\<exists>g. d h = Some (MathHeader g f)) \<and>
        (\<exists>tbl. parse_init t = Some tbl \<and>
           map (conv (qty f)) (take (cordic_iterations (n_bits f)) tbl) = cordic_atan_table f))"
proof -
  let ?E = "concat (map (\<lambda>(m, n). math_entries m n) math_main_formats)"
  have ok: "list_all (\<lambda>(m, n). total_bits m n \<le> 64) math_main_formats"
    by (simp add: math_main_formats_def total_bits_def)
  have run: "math_main Map.empty = (None, map_of (rev ?E))"
    using math_main_loop_ok [OF ok, of Map.empty] by (simp add: math_main_def)
  have inc: "(\<exists>g. map_of (rev ?E) h = Some (MathHeader g f)) \<and>
      (\<exists>tbl. parse_init t = Some tbl \<and>
         map (conv (qty f)) (take (cordic_iterations (n_bits f)) tbl) = cordic_atan_table f)"
    if "map_of (rev ?E) k = Some (MathImpl h t f)" for k h t f
  proof -
    from that have "(k, MathImpl h t f) \<in> set ?E"
      by (auto dest: map_of_SomeD)
    then obtain m n where mn: "(m, n) \<in> set math_main_formats" "math_format m n = Inr f"
        "h = math_header_filename m n" "t = table_str (snd (cordic_tables n))"
      by (blast dest: math_entries_impl)
    have "n_bits f = n"
      using math_format_Inr(2) [OF mn(2)] .
    then show ?thesis
      using math_entries_lookup(1) [OF mn(1,2)] mn(3,4) parse_table_str
      by (simp add: cordic_atan_table_def)
  qed
  have dom: "dom (map_of (rev ?E)) =
      (\<lambda>(m, n). math_header_filename m n) ` set math_main_formats \<union>
      (\<lambda>(m, n). math_c_filename m n) ` set math_main_formats"
    using math_entries_fst [OF ok] by (simp add: dom_map_of_conv_image_fst)
  have all: "\<forall>k h t f. map_of (rev ?E) k = Some (MathImpl h t f) \<longrightarrow>
      (\<exists>g. map_of (rev ?E) h = Some (MathHeader g f)) \<and>
      (\<exists>tbl. parse_init t = Some tbl \<and>
         map (conv (qty f)) (take (cordic_iterations (n_bits f)) tbl) = cordic_atan_table f)"
    by (intro allI impI) (rule inc)
  show ?thesis
    by (rule exI [of _ "map_of (rev ?E)"]) (intro conjI run dom all)
qed

text \<open>The Q7.8 pair of files written by the math driver.\<close>

theorem math_main_includes_witness:
  "\<exists>d. math_main Map.empty = (None, d) \<and>
     d (math_c_filename 7 8) = Some (MathImpl (math_header_filename 7 8)
        (table_str (snd (cordic_tables 8))) \<lparr>m_bits = 7, n_bits = 8, storage_bits = 16\<rparr>) \<and>
     (\<exists>g. d (math_header_filename 7 8) = Some (MathHeader g \<lparr>m_bits = 7, n_bits = 8, storage_bits = 16\<rparr>))"
proof -
  obtain d where d: "math_main Map.empty = (None, d)"
    and inc: "\<forall>k h t f. d k = Some (MathImpl h t f) \<longrightarrow>
        (\<exists>g. d h = Some (MathHeader g f)) \<and>
        (\<exists>tbl. parse_init t = Some tbl \<and>
           map (conv (qty f)) (take (cordic_iterations (n_bits f)) tbl) = cordic_atan_table f)"
    using math_main_includes by (elim exE conjE)
  have ok: "list_all (\<lambda>(m, n). total_bits m n \<le> 64) math_main_formats"
    by (simp add: math_main_formats_def total_bits_def)
  have deq: "d = map_of (rev (concat (map (\<lambda>(m, n). math_entries m n) math_main_formats)))"
    using d math_main_loop_ok [OF ok, of Map.empty] by (simp add: math_main_def)
  have mem: "(7, 8) \<in> set math_main_formats"
    by (simp add: math_main_formats_def)
  have fmt: "math_format 7 8 = Inr \<lparr>m_bits = 7, n_bits = 8, storage_bits = 16\<rparr>"
    by (simp add: math_format_eq total_bits_def)
  have c: "d (math_c_filename 7 8) = Some (MathImpl (math_header_filename 7 8)
      (table_str (snd (cordic_tables 8))) \<lparr>m_bits = 7, n_bits = 8, storage_bits = 16\<rparr>)"
    unfolding deq by (rule math_entries_lookup(2) [OF mem fmt])
  have h: "\<exists>g. d (math_header_filename 7 8) = Some (MathHeader g \<lparr>m_bits = 7, n_bits = 8, storage_bits = 16\<rparr>)"
    using inc [rule_format, OF c] by (rule conjunct1)
  show ?thesis
    by (intro exI [of _ d] conjI d c h)
qed

end
