(* ===== verification/Linkage.thy ===== *)
theory Linkage
  imports Emission
begin

text \<open>
  The declarations the generated files make and the identifiers each function uses: the core
  header (lines 55--120 of \<open>src/scripts/generate_headers.py\<close>), the math header (lines
  26--111 of \<open>src/scripts/generate_math_headers.py\<close>) and the C file (lines 156--380). A file
  is the list of its top-level items in source order; \<open>#include\<close> of a generated header is
  replaced by that header's items, as the preprocessor does. The C++ branches
  (\<open>#ifdef __cplusplus\<close>) are not modelled.
\<close>

datatype c_storage = Extern | Static | Static_Inline

datatype c_item =
    Include string
  | Typedef string string
  | Define string string
  | Proto string nat
  | Func c_storage string nat "string list"
  | Object c_storage string "string list"

text \<open>Names built by the f-strings: \<open>{m}_{n}\<close>, \<open>q{m}_{n}_<op>\<close>, \<open>Q{m}_{n}_<macro>\<close>,
  \<open>q{m}_{n}_t\<close>.\<close>

definition fmt_tag :: "nat \<Rightarrow> nat \<Rightarrow> string" where
  "fmt_tag m n = string_of_nat m @ ''_'' @ string_of_nat n"

definition fn_name :: "nat \<Rightarrow> nat \<Rightarrow> string \<Rightarrow> string" where
  "fn_name m n s = ''q'' @ fmt_tag m n @ ''_'' @ s"

definition macro_name :: "nat \<Rightarrow> nat \<Rightarrow> string \<Rightarrow> string" where
  "macro_name m n s = ''Q'' @ fmt_tag m n @ ''_'' @ s"

definition type_name :: "nat \<Rightarrow> nat \<Rightarrow> string" where
  "type_name m n = ''q'' @ fmt_tag m n @ ''_t''"

text \<open>The storage type and its limits of the selector's if-chains (lines 8--35 of
  \<open>generate_headers.py\<close>, 15--22 of \<open>generate_math_headers.py\<close>).\<close>

definition int_type_name :: "nat \<Rightarrow> string" where
  "int_type_name w = (if w = 8 then ''int8_t'' else if w = 16 then ''int16_t''
                      else if w = 32 then ''int32_t'' else ''int64_t'')"

definition int_max_name :: "nat \<Rightarrow> string" where
  "int_max_name w = (if w = 8 then ''INT8_MAX'' else if w = 16 then ''INT16_MAX''
                     else if w = 32 then ''INT32_MAX'' else ''INT64_MAX'')"

definition int_min_name :: "nat \<Rightarrow> string" where
  "int_min_name w = (if w = 8 then ''INT8_MIN'' else if w = 16 then ''INT16_MIN''
                     else if w = 32 then ''INT32_MIN'' else ''INT64_MIN'')"

text \<open>The core header, lines 55--120: guard, includes, typedef, the C branch of \<open>WRAP\<close>, the
  macros and the six inline functions with the macros each body uses.\<close>

definition core_header_items :: "nat \<Rightarrow> nat \<Rightarrow> core_fmt \<Rightarrow> c_item list" where
  "core_header_items m n f =
     (let p = ''Q'' @ fmt_tag m n; t = type_name m n in
      [Define (header_guard m n None) [],
       Include ''stdint.h'', Include ''stdbool.h'',
       Typedef t (int_type_name (storage_bits f)),
       Define (p @ ''_WRAP'') (''(raw) (('' @ t @ '')(raw))''),
       Define (p @ ''_RAW'') ''(x) (x)'',
       Define (p @ ''_FRAC_BITS'') (string_of_nat n),
       Define (p @ ''_ONE'') (p @ ''_WRAP('' @ string_of_nat (2 ^ n) @ '')''),
       Define (p @ ''_MAX'') (p @ ''_WRAP('' @ int_max_name (storage_bits f) @ '')''),
       Define (p @ ''_MIN'') (p @ ''_WRAP('' @ int_min_name (storage_bits f) @ '')''),
       Func Static_Inline (fn_name m n ''add'') 2 [p @ ''_WRAP''],
       Func Static_Inline (fn_name m n ''sub'') 2 [p @ ''_WRAP''],
       Func Static_Inline (fn_name m n ''mul'') 2 [p @ ''_WRAP''],
       Func Static_Inline (fn_name m n ''div'') 2 [p @ ''_MAX'', p @ ''_MIN'', p @ ''_WRAP''],
       Func Static_Inline (fn_name m n ''from_double'') 1 [p @ ''_WRAP''],
       Func Static_Inline (fn_name m n ''to_double'') 1 []])"

text \<open>The math header, lines 26--111: guard, includes, typedef, the six constant macros, the
  eight inline functions and the eleven prototypes.\<close>

definition math_header_items :: "nat \<Rightarrow> nat \<Rightarrow> qfmt \<Rightarrow> c_item list" where
  "math_header_items m n f =
     (let t = type_name m n; q = macro_name m n; tb = string_of_nat (total_bits m n) in
      [Define (math_guard m n) [],
       Include ''stdint.h'', Include ''stdbool.h'',
       Typedef t (int_type_name (storage_bits f)),
       Define (q ''PI'') (''(('' @ t @ '')(3.14159265358979323846 * (1LL << '' @ string_of_nat n @ '')))''),
       Define (q ''E'') (''(('' @ t @ '')(2.71828182845904523536 * (1LL << '' @ string_of_nat n @ '')))''),
       Define (q ''ONE'') (''(('' @ t @ '')(1LL << '' @ string_of_nat n @ ''))''),
       Define (q ''HALF'') (''(('' @ t @ '')(1LL << ('' @ string_of_nat n @ '' - 1)))''),
       Define (q ''MAX'') (''(('' @ t @ '')((1LL << ('' @ tb @ '' - 1)) - 1))''),
       Define (q ''MIN'') (''(('' @ t @ '')(-(1LL << ('' @ tb @ '' - 1))))''),
       Func Static_Inline (fn_name m n ''abs'') 1 [],
       Func Static_Inline (fn_name m n ''min'') 2 [],
       Func Static_Inline (fn_name m n ''max'') 2 [],
       Func Static_Inline (fn_name m n ''clamp'') 3 [fn_name m n ''min'', fn_name m n ''max''],
       Func Static_Inline (fn_name m n ''floor'') 1 [q ''ONE''],
       Func Static_Inline (fn_name m n ''ceil'') 1 [q ''ONE''],
       Func Static_Inline (fn_name m n ''round'') 1 [q ''HALF'', q ''ONE''],
       Func Static_Inline (fn_name m n ''trunc'') 1 [q ''ONE''],
       Proto (fn_name m n ''sqrt'') 1,
       Proto (fn_name m n ''sin'') 1, Proto (fn_name m n ''cos'') 1, Proto (fn_name m n ''tan'') 1,
       Proto (fn_name m n ''atan'') 1, Proto (fn_name m n ''atan2'') 2,
       Proto (fn_name m n ''exp'') 1, Proto (fn_name m n ''log'') 1,
       Proto (fn_name m n ''exp2'') 1, Proto (fn_name m n ''log2'') 1,
       Proto (fn_name m n ''pow'') 2])"

text \<open>The C file, lines 156--380: the include of its header, the CORDIC macros and table, the
  two static CORDIC loops and the eleven external functions, with the functions, macros and
  objects each body uses.\<close>

definition math_c_items :: "nat \<Rightarrow> nat \<Rightarrow> qfmt \<Rightarrow> c_item list" where
  "math_c_items m n f =
     (let t = type_name m n; q = macro_name m n; k = ''CORDIC_K_'' @ string_of_nat n;
          it = ''CORDIC_ITERATIONS''; tbl = ''cordic_atan_table'' in
      [Include (math_header_filename m n), Include ''stdint.h'',
       Define k (''(('' @ t @ '')'' @ string_of_int (fst (cordic_tables n)) @ '')''),
       Define it (string_of_nat (min n 16)),
       Object Static tbl [it],
       Func Static ''cordic_rotate'' 3 [k, it, tbl],
       Func Static ''cordic_vector'' 2 [it, tbl],
       Func Extern (fn_name m n ''sin'') 1 [q ''PI'', ''cordic_rotate''],
       Func Extern (fn_name m n ''cos'') 1 [q ''PI'', ''cordic_rotate''],
       Func Extern (fn_name m n ''tan'') 1 [fn_name m n ''sin'', fn_name m n ''cos'', q ''MAX''],
       Func Extern (fn_name m n ''atan2'') 2 [''cordic_vector'', q ''PI''],
       Func Extern (fn_name m n ''atan'') 1 [fn_name m n ''atan2'', q ''ONE''],
       Func Extern (fn_name m n ''sqrt'') 1 [q ''ONE''],
       Func Extern (fn_name m n ''exp2'') 1 [q ''ONE'', q ''MAX''],
       Func Extern (fn_name m n ''exp'') 1 [fn_name m n ''exp2''],
       Func Extern (fn_name m n ''log2'') 1 [q ''MIN'', q ''ONE''],
       Func Extern (fn_name m n ''log'') 1 [fn_name m n ''log2''],
       Func Extern (fn_name m n ''pow'') 2 [fn_name m n ''log2'', fn_name m n ''exp2'']])"

text \<open>\<open>#include "h"\<close>: the preprocessor replaces the directive by the items of \<open>h\<close>.\<close>

definition include_file :: "string \<Rightarrow> c_item list \<Rightarrow> c_item list \<Rightarrow> c_item list" where
  "include_file h hs items = concat (map (\<lambda>i. if i = Include h then hs else [i]) items)"

definition math_unit :: "nat \<Rightarrow> nat \<Rightarrow> qfmt \<Rightarrow> c_item list" where
  "math_unit m n f = include_file (math_header_filename m n) (math_header_items m n f) (math_c_items m n f)"

text \<open>The rules of C a translation unit must keep, as checks on the item list.\<close>

fun item_names :: "c_item \<Rightarrow> string list" where
  "item_names (Include h) = []"
| "item_names (Typedef x t) = [x]"
| "item_names (Define x t) = [x]"
| "item_names (Proto x k) = [x]"
| "item_names (Func s x k us) = [x]"
| "item_names (Object s x us) = [x]"

fun item_uses :: "c_item \<Rightarrow> string list" where
  "item_uses (Func s x k us) = us"
| "item_uses (Object s x us) = us"
| "item_uses i = []"

fun declared_before_use :: "string list \<Rightarrow> c_item list \<Rightarrow> bool" where
  "declared_before_use vis [] = True"
| "declared_before_use vis (i # is) =
     (set (item_uses i) \<subseteq> set vis \<and> declared_before_use (item_names i @ vis) is)"

fun macro_def :: "c_item \<Rightarrow> (string \<times> string) list" where
  "macro_def (Define x t) = [(x, t)]"
| "macro_def i = []"

fun typedef_def :: "c_item \<Rightarrow> (string \<times> string) list" where
  "typedef_def (Typedef x t) = [(x, t)]"
| "typedef_def i = []"

fun proto_decl :: "c_item \<Rightarrow> (string \<times> nat) list" where
  "proto_decl (Proto x k) = [(x, k)]"
| "proto_decl i = []"

fun func_def :: "c_item \<Rightarrow> (c_storage \<times> string \<times> nat) list" where
  "func_def (Func s x k us) = [(s, x, k)]"
| "func_def i = []"

fun object_def :: "c_item \<Rightarrow> string list" where
  "object_def (Object s x us) = [x]"
| "object_def i = []"

text \<open>Macro or typedef names defined twice with different replacement text (for a macro a
  constraint violation of the C standard's rules on redefinition; for a typedef a different
  type).\<close>

definition conflicts :: "(string \<times> string) list \<Rightarrow> string list" where
  "conflicts ds = remdups [x. (x, t) \<leftarrow> ds, (y, u) \<leftarrow> ds, x = y \<and> t \<noteq> u]"

definition defined_names :: "c_item list \<Rightarrow> string list" where
  "defined_names is = map (\<lambda>(s, x, k). x) (concat (map func_def is)) @ concat (map object_def is)"

definition protos_defined :: "c_item list \<Rightarrow> bool" where
  "protos_defined is =
     list_all (\<lambda>(x, k). (Extern, x, k) \<in> set (concat (map func_def is))) (concat (map proto_decl is))"

definition externs_declared :: "c_item list \<Rightarrow> bool" where
  "externs_declared is =
     list_all (\<lambda>(s, x, k). s \<noteq> Extern \<or> (x, k) \<in> set (concat (map proto_decl is)))
       (concat (map func_def is))"

definition well_linked :: "c_item list \<Rightarrow> bool" where
  "well_linked is \<longleftrightarrow>
     declared_before_use [] is \<and> distinct (defined_names is) \<and>
     conflicts (concat (map macro_def is)) = [] \<and> conflicts (concat (map typedef_def is)) = [] \<and>
     protos_defined is \<and> externs_declared is"

text \<open>The operation set of spec section 6, with its names for the two conversions, and the
  names the generators give them; a client translation unit that includes the core header and
  then the math header of the same format.\<close>

definition spec_operations :: "string list" where
  "spec_operations = [''add'', ''sub'', ''mul'', ''div'', ''from_real'', ''to_real'', ''abs'', ''min'',
     ''max'', ''clamp'', ''floor'', ''ceil'', ''round'', ''trunc'', ''sqrt'', ''sin'', ''cos'', ''tan'',
     ''atan'', ''atan2'', ''exp'', ''log'', ''exp2'', ''log2'', ''pow'']"

definition source_op :: "string \<Rightarrow> string" where
  "source_op s = (if s = ''from_real'' then ''from_double'' else if s = ''to_real'' then ''to_double'' else s)"

definition client_unit :: "nat \<Rightarrow> nat \<Rightarrow> core_fmt \<Rightarrow> c_item list" where
  "client_unit m n f = core_header_items m n f @ math_header_items m n (qfmt.truncate f)"

lemmas unit_defs = core_header_items_def math_header_items_def math_c_items_def Let_def
  fn_name_def macro_name_def type_name_def header_guard_def math_guard_def math_header_filename_def

lemmas check_defs = well_linked_def defined_names_def conflicts_def protos_defined_def
  externs_declared_def

text \<open>
  C38: the C file of every format links against its own header: after the preprocessor has
  replaced \<open>#include "q<m>_<n>_math.h"\<close> by the math header, every function, macro and object
  is declared before it is used, no function or object is defined twice, no macro or typedef
  is redefined differently, each of the header's eleven prototypes has an external
  definition of the same arity in the C file, and every external definition of the C file
  is prototyped in the header.
\<close>

theorem math_unit_linked: "well_linked (math_unit m n f)"
  by (simp add: check_defs unit_defs math_unit_def include_file_def)

theorem math_unit_linked_witness:
  "well_linked (math_unit 7 8 \<lparr>m_bits = 7, n_bits = 8, storage_bits = 16\<rparr>)"
  by (rule math_unit_linked)

text \<open>
  C39: the two headers of a format together provide exactly the operation set of spec section 6
  (\<open>from_real\<close>/\<open>to_real\<close> are \<open>from_double\<close>/\<open>to_double\<close>) and its six constants, with
  no function defined twice and the same typedef; but a translation unit that includes both
  defines \<open>ONE\<close>, \<open>MAX\<close> and \<open>MIN\<close> twice with different replacement lists, a constraint
  violation every conforming compiler must diagnose.
\<close>

theorem headers_interface:
  "set (map (\<lambda>(s, x, k). x) (concat (map func_def (client_unit m n f)))) \<union>
     set (map fst (concat (map proto_decl (client_unit m n f)))) =
     fn_name m n ` source_op ` set spec_operations \<and>
   macro_name m n ` set [''ONE'', ''HALF'', ''MAX'', ''MIN'', ''PI'', ''E''] \<subseteq>
     set (map fst (concat (map macro_def (client_unit m n f)))) \<and>
   distinct (defined_names (client_unit m n f)) \<and>
   conflicts (concat (map typedef_def (client_unit m n f))) = [] \<and>
   set (conflicts (concat (map macro_def (client_unit m n f)))) =
     macro_name m n ` {''ONE'', ''MAX'', ''MIN''}"
  by (simp add: client_unit_def unit_defs spec_operations_def source_op_def check_defs
      qfmt.truncate_def insert_commute)

end
