(* ===== verification/Spec2Isabelle.thy ===== *)
theory Spec2Isabelle
  imports FixCore MathFun Reduction Emission Linkage
begin

text \<open>
  \<^bold>\<open>A verification development for openfixedpoint's fixed-point code generators.\<close>

  \<^bold>\<open>The program.\<close> Two Python scripts print C code for a signed fixed-point format
  Qm.n (1 sign bit, \<open>m\<close> integer bits, \<open>n\<close> fractional bits, raw value \<open>v\<close> meaning
  \<open>v / 2^n\<close>):
  \<^item> \<open>src/scripts/generate_headers.py\<close>, \<open>generate_header(m, n, ...)\<close>: selects a storage
    type of 8, 16, 32 or 64 bits and a double-width type, and prints \<open>q<m>_<n>.h\<close> with the
    constants \<open>ONE\<close>, \<open>MAX\<close>, \<open>MIN\<close> and the functions \<open>add\<close>, \<open>sub\<close>, \<open>mul\<close>,
    \<open>div\<close>, \<open>from_double\<close>, \<open>to_double\<close>;
  \<^item> \<open>src/scripts/generate_math_headers.py\<close>: \<open>generate_math_header\<close> prints
    \<open>q<m>_<n>_math.h\<close> (constants \<open>PI\<close>, \<open>E\<close>, \<open>ONE\<close>, \<open>HALF\<close>, \<open>MAX\<close>, \<open>MIN\<close>;
    \<open>abs\<close>, \<open>min\<close>, \<open>max\<close>, \<open>clamp\<close>, \<open>floor\<close>, \<open>ceil\<close>, \<open>round\<close>, \<open>trunc\<close>), and
    \<open>generate_cordic_tables\<close> / \<open>generate_cordic_c_file\<close> print \<open>q<m>_<n>_math.c\<close> (CORDIC
    rotation and vectoring, \<open>sin\<close>, \<open>cos\<close>, \<open>tan\<close>, \<open>atan2\<close>, \<open>atan\<close>, \<open>sqrt\<close>, \<open>exp2\<close>,
    \<open>exp\<close>, \<open>log2\<close>, \<open>log\<close>, \<open>pow\<close>).
  The generated functions are pure: no state beyond per-format constants. Data flows from the
  format selector to the constants and from there to every operation.

  \<^bold>\<open>What is modelled and how.\<close> The model is the meaning of the printed C code as a function
  of \<open>(m, n)\<close>, one HOL definition per generated function, over one shared semantics of C
  integers:
  \<^item> \<^theory_text>\<open>CInt\<close>: C integer types as \<open>cty\<close> (signed or unsigned, with a width), typed values
    \<open>cval = cty \<times> int\<close>, integer promotions and usual arithmetic conversions
    (\<open>promote\<close>, \<open>usual\<close>, \<open>arith_ty\<close>), and one definition per C operator
    (\<open>c_add\<close>, \<open>c_sub\<close>, \<open>c_mul\<close>, \<open>c_div\<close>, \<open>c_neg\<close>, \<open>c_shl\<close>, \<open>c_shr\<close>, \<open>c_and\<close>,
    \<open>c_not\<close>, comparisons, casts \<open>c_cast\<close>, literals \<open>c_lit\<close>, \<open>double\<close>-to-integer
    \<open>c_of_double\<close>). Where the implementation may choose, GCC's documented choice is taken:
    conversion modulo \<open>2^w\<close>, arithmetic \<open>>>\<close>, \<open><<\<close> on the bit pattern. Undefined
    behaviour (signed overflow, division by zero, a shift count outside \<open>[0, width)\<close>, an
    out-of-range \<open>double\<close> conversion) is the value \<open>None\<close>, so every operation of the
    model returns \<open>int option\<close> and "never fails" is a theorem.
  \<^item> \<^theory_text>\<open>Format\<close>: the format selector. \<open>header_format\<close>, \<open>math_format\<close>, \<open>cordic_format\<close>
    translate the three if-chains on \<open>total_bits = m + n + 1\<close>; the record \<open>qfmt\<close> holds
    \<open>m\<close>, \<open>n\<close> and the storage width, \<open>core_fmt\<close> adds the double-width type of the core
    header. \<open>valid_core\<close>/\<open>valid_math\<close> are the formats a generator accepts.
  \<^item> \<^theory_text>\<open>FixCore\<close>: the core header, lines 73--114 of \<open>generate_headers.py\<close>:
    \<open>q_ONE\<close>, \<open>q_MAX\<close>, \<open>q_MIN\<close>, \<open>q_add\<close>, \<open>q_sub\<close>, \<open>q_mul\<close>, \<open>q_div\<close>,
    \<open>q_from_double\<close>, \<open>q_to_double\<close>, each a transcription of the printed C body into the
    operations of \<^theory_text>\<open>CInt\<close>.
  \<^item> \<^theory_text>\<open>MathBasic\<close>: the math header, lines 41--94 of \<open>generate_math_headers.py\<close>:
    the macros \<open>PI\<close>, \<open>E\<close>, \<open>ONE\<close>, \<open>HALF\<close>, \<open>MAX\<close>, \<open>MIN\<close> as \<open>math_PI\<close> \<dots>
    \<open>math_MIN\<close> (each an \<open>int option\<close>, because a macro is re-expanded at every use and
    its expansion may be undefined), and \<open>math_abs\<close>, \<open>math_min\<close>, \<open>math_max\<close>,
    \<open>math_clamp\<close>, \<open>math_floor\<close>, \<open>math_ceil\<close>, \<open>math_round\<close>, \<open>math_trunc\<close>.
  \<^item> \<^theory_text>\<open>Cordic\<close>: \<open>generate_cordic_tables\<close> (\<open>cordic_tables\<close>, with the binary64
    values of \<open>0.60725293500888\<close> and of \<open>math.atan(2.0 ** -i)\<close>, \<open>i < 32\<close>), the printed
    \<open>CORDIC_K\<close>, \<open>CORDIC_ITERATIONS\<close> and \<open>cordic_atan_table\<close>, one iteration of
    \<open>cordic_rotate\<close>/\<open>cordic_vector\<close> (\<open>rotate_step\<close>, \<open>vector_step\<close>) run by the
    counted loop \<open>for_loop\<close>, and \<open>sin\<close>/\<open>cos\<close> (\<open>q_sin\<close>, \<open>q_cos\<close>). The two
    \<open>while\<close> loops of the range reduction are \<^theory_text>\<open>partial_function (option)\<close>
    (\<open>reduce_above\<close>, \<open>reduce_below\<close>): a loop that never ends would be \<open>None\<close>, and that
    they end is proved (C22, C24), not assumed. The CORDIC loop needs no fuel: its count is
    \<open>min(n, 16)\<close>.
  \<^item> \<^theory_text>\<open>MathFun\<close>: \<open>tan\<close>, \<open>atan2\<close>, \<open>atan\<close>, \<open>sqrt\<close>, \<open>exp2\<close>, \<open>exp\<close>,
    \<open>log2\<close>, \<open>log\<close>, \<open>pow\<close> (lines 253--380) as \<open>q_tan\<close> \<dots> \<open>q_pow\<close>. The bit-scan
    \<open>while\<close> loops of \<open>sqrt\<close> and \<open>log2\<close> are again partial functions
    (\<open>sqrt_scan\<close>, \<open>log2_scan\<close>), proved to end (C29); the four Newton steps of \<open>sqrt\<close>
    run in the counted loop \<open>for_loop\<close>. The source's \<open>(base_type)v\<close> casts are casts to
    the storage type itself, and are modelled as such.
  \<^item> \<^theory_text>\<open>Reduction\<close>: the loop \<open>while (angle > PI) angle -= 2 * PI\<close> of \<open>sin\<close> (line 221) as a
    state machine: the guard \<open>reduce_guard\<close>, the body \<open>reduce_body\<close> and the step relation
    \<open>reduce_step\<close> (an \<^theory_text>\<open>inductive\<close> predicate with \<^theory_text>\<open>code_pred\<close>), whose finished runs are
    exactly the partial function \<open>reduce_above\<close> of \<^theory_text>\<open>Cordic\<close>.
  \<^item> \<^theory_text>\<open>Emission\<close>: the text and the drivers. Python's \<open>str\<close> of an integer
    (\<open>string_of_int\<close>), the default and overridden file names and include guards of
    \<open>generate_header\<close> (lines 40--50: \<open>header_filename\<close>, \<open>header_guard\<close>, with
    \<open>str.replace\<close>/\<open>str.upper\<close> as \<open>dot_to_underscore\<close>/\<open>char_upper\<close>), the math guard and
    file names (\<open>math_guard\<close>, \<open>math_header_filename\<close>, \<open>math_c_filename\<close>), the printed
    CORDIC table (line 154: \<open>join\<close>, \<open>table_str\<close>), and the drivers as updates of an output
    directory \<open>string \<rightharpoonup> gen_file\<close>: \<open>generate_header\<close> (skip or write),
    \<open>generate_math_header\<close> and \<open>generate_cordic_c_file\<close> (\<open>ValueError\<close> or a file), and
    the two \<open>main()\<close> functions (\<open>core_main\<close>, a fold over the six formats;
    \<open>math_main_loop\<close>, which stops at the first exception and keeps the files written so
    far). A file is abstracted to its guard, format, include target and printed table; what
    else it prints is modelled by the theories above. The C compiler's reading of an
    initializer list is a reference parser (\<open>parse_init\<close>), not code of the repository.
  \<^item> \<^theory_text>\<open>Linkage\<close>: the declarations of the printed files. Every top-level item of the
    core header (\<open>core_header_items\<close>), the math header (\<open>math_header_items\<close>, with the
    eleven prototypes of lines 96--111) and the C file (\<open>math_c_items\<close>) in source order:
    includes, typedefs, macros with their replacement text, prototypes, and functions and
    objects with storage class, arity and the identifiers their bodies use. \<open>math_unit\<close>
    is the C file after the preprocessor has expanded the include of its header;
    \<open>well_linked\<close> collects the C rules checked on a translation unit (declaration before
    use, single definition, consistent macros and typedefs, prototypes matched by external
    definitions). \<open>spec_operations\<close> is the operation set of spec section 6, a reference.
  \<open>double\<close> values are modelled by their exact real values. This is exact for the products
  with powers of two the code forms; it ignores the rounding of \<open>d * 2^n + 0.5\<close> in
  \<open>from_double\<close> when \<open>|d * 2^n| \<ge> 2^52\<close> and of \<open>(double)a\<close> in \<open>to_double\<close> when
  \<open>|a| > 2^53\<close> (64-bit formats only).

  \<^bold>\<open>What is proved.\<close>
  \<^item> Format selector: the smallest fitting width is chosen and widths above 64 bits are
    rejected (C9); the three selectors agree (C10).
  \<^item> Arithmetic core, for every accepted format: \<open>add\<close> and \<open>sub\<close> are the wrapping
    word operations of HOL-Library's \<open>'a word\<close> (C1, a refinement to \<open>Word\<close>); \<open>mul\<close> is characterised on every
    branch (\<open>q_mul_eq\<close>): round-half-up and wrap for \<open>1 \<le> n \<le> 31\<close> (C2), undefined for
    \<open>n = 0\<close> and \<open>n \<ge> 33\<close> and off by one ULP for \<open>n = 32\<close> (C3); multiplication by \<open>ONE\<close> is exact where it is
    defined; \<open>div\<close> saturates on a zero divisor and otherwise truncates and wraps, never
    failing (\<open>q_div_eq\<close>); \<open>from_double\<close> inverts \<open>to_double\<close> and is within half an
    ULP of its argument.
  \<^item> Math header (for formats with \<open>n + 2 \<le> storage bits\<close>, where \<open>ONE\<close> is \<open>2^n\<close>):
    each rounding function is characterised on every branch (\<open>math_floor_eq\<close> \<dots>
    \<open>math_round_eq\<close>); \<open>floor\<close> is one \<open>ONE\<close> low on negative non-integers, \<open>ceil\<close> floors
    negative values, \<open>round\<close> moves negative integers down, \<open>trunc\<close> floors (C11--C15);
    \<open>floor\<close>, \<open>ceil\<close>, \<open>trunc\<close> are idempotent (C16); \<open>abs\<close>, \<open>clamp\<close>, \<open>PI\<close> and the
    undefined cases of Q0.31/Q0.63 and of \<open>n = 0\<close> (C17--C20); the two headers' \<open>MAX\<close>
    macros agree only when \<open>m + n + 1\<close> fills the storage type (C21, below).
  \<^item> CORDIC: the range-reduction loops end and equal one modulo reduction (C22); for 8- and
    16-bit formats \<open>cordic_rotate\<close> is free of undefined behaviour (C23), and \<open>sin\<close>,
    \<open>cos\<close>, \<open>tan\<close>, \<open>atan2\<close>, \<open>atan\<close> return a value of the format for every input
    (C24); the Q7.8 values of \<open>sin\<close>, \<open>cos\<close> and \<open>tan\<close> at \<open>0\<close> and \<open>PI\<close> and two
    \<open>atan2\<close> values in the left half-plane are computed (C25).
  \<^item> Transcendental functions: \<open>log\<close> of a non-positive value is the finite
    \<open>(MIN * ln2) >> n\<close>, not a sentinel (C26); \<open>exp2\<close> is undefined on negative inputs, and so is \<open>exp\<close>
    whenever \<open>(x * log2e) >> n\<close> is one (C27); \<open>exp2\<close>, for
    32-bit formats with \<open>n \<ge> 16\<close>, already at \<open>0\<close> (C28); the bit scans compute the bit
    length (C29); \<open>log2\<close> is exact on powers of two (C30); \<open>sqrt(4.0)\<close> is right in Q7.8
    and wrong in Q15.16 (C31); \<open>exp2\<close> is exact on non-negative integers below \<open>2^m\<close>
    where the final product fits (\<open>exp2_int\<close>), so \<open>pow(2^a, c) = 2^(a c)\<close> for formats
    up to 32 bits (C40).
  \<^item> Across components: every result of the core operations and of the math rounding
    functions on values of the format is again a value of the format (C32); the reduction
    loop, as a step relation, reaches a finished state from every angle, and that state is
    \<open>reduce_above\<close>'s result (C33, by rule induction and well-founded induction on the
    distance to \<open>PI\<close>).
  \<^item> Emission and drivers: the printed table reads back as the computed list (C34); names
    and guards are injective in \<open>(m, n)\<close> and the default name as override gives the
    default guard (C35); the core \<open>main()\<close> writes exactly one header per format (C36); the
    math \<open>main()\<close> raises nothing, writes its fourteen files, and every C file includes a
    header of its own format whose table text is \<open>cordic_atan_table\<close> once read and
    converted (C37).
  \<^item> Linkage: every C file, with its header included, is a well-linked translation unit
    (C38); the two headers together provide exactly the operation set and constants of spec
    section 6, but both define \<open>ONE\<close>, \<open>MAX\<close> and \<open>MIN\<close>, with different replacement
    lists, so a file that includes both is ill-formed (C39).
  Concrete values are computed by \<open>simp\<close> from the step lemmas (\<open>rotate_step_narrow\<close>,
  \<open>vector_step_narrow\<close>, \<open>for_loop_numeral\<close>) and the closed forms of the loops, never by
  generated code.

  \<^bold>\<open>Not yet proved.\<close> \<open>exp\<close> on non-negative inputs has no property of
  its own; accuracy bounds of \<open>tan\<close>, \<open>atan\<close> and \<open>log\<close> are not covered; CORDIC accuracy bounds (which need real analysis of
  the rotation) and the behaviour of 32- and 64-bit CORDIC, where the loop may overflow
  \<open>int\<close>, are not covered.

  \<^bold>\<open>Not modelled.\<close> Directory creation, the \<open>print()\<close> messages, the comments of the
  templates, the C++ branches (\<open>extern "C"\<close>, the C++ \<open>WRAP\<close>; the model is C) and macro
  expansion itself (replacement lists are compared as text); the file
  contents beyond guard, format, include target and table text, which the theories above model
  as the functions they denote; paths outside the output directory (an override containing
  \<open>/\<close>). IEEE rounding of \<open>double\<close> arithmetic beyond the cases listed above.
\<close>

subsection \<open>Properties across the two headers\<close>

lemma core_math_fields:
  "m_bits (qfmt.truncate f) = m_bits f" "n_bits (qfmt.truncate f) = n_bits f"
  "storage_bits (qfmt.truncate f) = storage_bits f"
  by (simp_all add: qfmt.truncate_def)

text \<open>
  C21: the core header and the math header both define \<open>Q<m>_<n>_MAX\<close> for the same format,
  but the core header's is the largest value of the storage type and the math header's is the
  largest value of \<open>total_bits\<close> bits. They agree exactly when \<open>m + n + 1\<close> fills the storage
  type and is below 64 bits; at 64 bits the math header's macro overflows.
\<close>

theorem max_macros_agree:
  assumes f: "valid_core f"
  shows "math_MAX (qfmt.truncate f) = Some (q_MAX f) \<longleftrightarrow>
         m_bits f + n_bits f + 1 = storage_bits f \<and> storage_bits f < 64"
proof -
  let ?k = "m_bits f + n_bits f" and ?w = "storage_bits f"
  have b: "?k + 1 \<le> ?w" "?w \<le> 64"
    using valid_core_bits [OF f] by simp_all
  have "(2::int) ^ ?k - 1 = 2 ^ (?w - 1) - 1 \<longleftrightarrow> ?k = ?w - 1"
    by simp
  then show ?thesis
    using b by (auto simp: math_MAX_eq [OF valid_math_truncate [OF f]] core_math_fields
        q_MAX_eq [OF f] total_bits_def)
qed

theorem max_macros_agree_witness:
  "math_MAX (qfmt.truncate \<lparr>m_bits = 7, n_bits = 8, storage_bits = 16, wide_bits = 32\<rparr>) =
     Some (q_MAX \<lparr>m_bits = 7, n_bits = 8, storage_bits = 16, wide_bits = 32\<rparr>) \<and>
   math_MAX (qfmt.truncate \<lparr>m_bits = 8, n_bits = 8, storage_bits = 32, wide_bits = 64\<rparr>) \<noteq>
     Some (q_MAX \<lparr>m_bits = 8, n_bits = 8, storage_bits = 32, wide_bits = 64\<rparr>)"
proof -
  have "valid_core \<lparr>m_bits = 8, n_bits = 8, storage_bits = 32, wide_bits = 64\<rparr>"
    by (simp add: valid_core_def header_format_eq total_bits_def)
  then show ?thesis
    using max_macros_agree [OF valid_core_Q7_8] max_macros_agree [of "\<lparr>m_bits = 8, n_bits = 8, storage_bits = 32, wide_bits = 64\<rparr>"]
    by simp
qed






end
